theory Spec2Isabelle
  imports Main "HOL-Library.Word"
begin

unbundle bit_operations_syntax

section \<open>Data model of main.go\<close>

text \<open>
  The program is one Go file. Its structs become records, Go's \<^verbatim>\<open>error\<close> values and
  run-time panics become values of the datatype \<open>error\<close>, and Go strings and byte slices
  become \<open>string\<close> (a list of 8-bit characters, as Go strings are byte sequences).
  The \<^verbatim>\<open>XMLName\<close> fields of the three XML structs are never assigned; they only carry the
  element names for the serializer and are left out of the records.
\<close>

datatype error =
    ErrorsNew string          \<comment> \<open>\<^verbatim>\<open>errors.New(msg)\<close>\<close>
  | CsvParseError             \<comment> \<open>a \<^verbatim>\<open>*csv.ParseError\<close> of the record lexer (bad quoting)\<close>
  | CsvErrFieldCount          \<comment> \<open>\<^verbatim>\<open>csv.ErrFieldCount\<close>: wrong number of fields in a record\<close>
  | TimeParseError            \<comment> \<open>a \<^verbatim>\<open>*time.ParseError\<close>\<close>
  | HttpGetError              \<comment> \<open>\<^verbatim>\<open>http.Get\<close> failed\<close>
  | BodyReadError             \<comment> \<open>\<^verbatim>\<open>ioutil.ReadAll\<close> failed while reading the body\<close>
  | XmlMarshalError           \<comment> \<open>\<^verbatim>\<open>xml.Marshal\<close> failed\<close>
  | IndexOutOfRange           \<comment> \<open>run-time panic: index out of range\<close>
  | MakeSliceCapOutOfRange    \<comment> \<open>run-time panic: makeslice: cap out of range\<close>

record item =
  item_Title :: string
  item_Link :: string
  item_Description :: string
  item_PubDate :: string
  item_Category :: string

record channel =
  channel_Title :: string
  channel_Link :: string
  channel_Description :: string
  channel_Items :: "item list"

text \<open>\<^verbatim>\<open>Channel *channel\<close> is a pointer: \<open>None\<close> is \<^verbatim>\<open>nil\<close>.\<close>

record rss =
  Version :: string
  Channel :: "channel option"

text \<open>The mutex \<^verbatim>\<open>mu\<close> has no content in a sequential model and is left out.\<close>

record sheet2rss =
  url :: string
  ready :: bool
  cached :: string
  digest :: string

definition Title :: string where
  "Title = ''Federal Government 2017''"

definition Desc :: string where
  "Desc = ''Summaries of events from the US Government.''"

definition URL :: string where
  "URL = ''http://jlord.us/federal-gov/''"

definition NumEntries :: int where
  "NumEntries = 20"

text \<open>\<^verbatim>\<open>new(item)\<close> and \<^verbatim>\<open>new(rss)\<close>: every field has its zero value.\<close>

definition new_item :: item where
  "new_item = \<lparr>item_Title = '''', item_Link = '''', item_Description = '''',
     item_PubDate = '''', item_Category = ''''\<rparr>"

definition new_rss :: rss where
  "new_rss = \<lparr>Version = '''', Channel = None\<rparr>"

section \<open>The environment: standard library and outside world\<close>

text \<open>
  A \<^verbatim>\<open>time.Time\<close> is an instant (nanoseconds since the Unix epoch) together with the
  location it is displayed in. \<^verbatim>\<open>t.UTC()\<close> keeps the instant and sets the location.
\<close>

datatype location = UTC | Local | FixedZone string int

record time =
  instant :: int
  loc :: location

definition Time_UTC :: "time \<Rightarrow> time" where
  "Time_UTC t = t\<lparr>loc := UTC\<rparr>"

text \<open>
  An \<^verbatim>\<open>io.Reader\<close> is only ever handed to \<^verbatim>\<open>csv.NewReader\<close>. It is represented by what
  the record lexer of \<^verbatim>\<open>encoding/csv\<close> reads from it: the outcomes of the successive record
  reads up to the end of the input, each a lexing error or the fields of one record.
\<close>

type_synonym reader = "(error + string list) list"

text \<open>
  The functions of the Go standard library that main.go calls and whose code is not part
  of the repository are parameters of the model, collected in one record, together with
  the two inputs from the outside world: the wall clock (\<open>time_Now env n\<close> is the reading
  of the \<open>n\<close>-th call of \<^verbatim>\<open>time.Now()\<close>) and the network (\<open>http_Get env u\<close> is the failure of
  \<^verbatim>\<open>http.Get(u)\<close>, or the body that \<^verbatim>\<open>ioutil.ReadAll\<close> read and the error it ended with).
\<close>

record env =
  time_Parse :: "string \<Rightarrow> string \<Rightarrow> error + time"
  time_Format :: "time \<Rightarrow> string \<Rightarrow> string"
  time_Now :: "nat \<Rightarrow> time"
  http_Get :: "string \<Rightarrow> error + (reader \<times> error option)"
  xml_Marshal :: "rss \<Rightarrow> error + string"
  sha1_Sum :: "string \<Rightarrow> string"

text \<open>The layout constants of package \<^verbatim>\<open>time\<close>.\<close>

definition RFC3339 :: string where
  "RFC3339 = ''2006-01-02T15:04:05Z07:00''"

definition RFC3339Nano :: string where
  "RFC3339Nano = ''2006-01-02T15:04:05.999999999Z07:00''"

definition Stamp :: string where
  "Stamp = ''Jan _2 15:04:05''"

definition RFC822 :: string where
  "RFC822 = ''02 Jan 06 15:04 MST''"

definition RFC822Z :: string where
  "RFC822Z = ''02 Jan 06 15:04 -0700''"

definition RFC1123Z :: string where
  "RFC1123Z = ''Mon, 02 Jan 2006 15:04:05 -0700''"

section \<open>parseDate\<close>

definition layouts :: "string list" where
  "layouts = [RFC3339, RFC3339Nano, Stamp, RFC822, RFC822Z, ''1/2/2006'', ''01/02/2006'']"

text \<open>The \<^verbatim>\<open>for ... range\<close> loop over the layouts: the first layout that parses returns.\<close>

fun parseDate_loop :: "env \<Rightarrow> string \<Rightarrow> string list \<Rightarrow> time option" where
  "parseDate_loop env s [] = None"
| "parseDate_loop env s (x # xs) =
     (case time_Parse env x s of
        Inr p \<Rightarrow> Some (Time_UTC p)
      | Inl err \<Rightarrow> parseDate_loop env s xs)"

text \<open>
  \<open>clk\<close> counts the calls of \<^verbatim>\<open>time.Now()\<close> made so far; the fallback reads the clock and
  advances the count.
\<close>

definition parseDate :: "env \<Rightarrow> nat \<Rightarrow> string \<Rightarrow> time \<times> nat" where
  "parseDate env clk s =
     (case parseDate_loop env s layouts of
        Some t \<Rightarrow> (t, clk)
      | None \<Rightarrow> (Time_UTC (time_Now env clk), Suc clk))"

section \<open>fromRecord\<close>

text \<open>
  Indexing a slice panics outside its bounds. The parameter \<^verbatim>\<open>fields\<close> of the source is
  written \<open>flds\<close>: a record declaration reserves the name \<open>fields\<close>.
\<close>

definition index :: "'a list \<Rightarrow> int \<Rightarrow> error + 'a" where
  "index xs i = (if 0 \<le> i \<and> i < int (length xs) then Inr (xs ! nat i) else Inl IndexOutOfRange)"

definition get :: "string list \<Rightarrow> int \<Rightarrow> error + string" where
  "get flds i = (if i < int (length flds) then index flds i else Inr '''')"

fun strings_Join :: "string list \<Rightarrow> string \<Rightarrow> string" where
  "strings_Join [] sep = ''''"
| "strings_Join [x] sep = x"
| "strings_Join (x # y # ys) sep = x @ sep @ strings_Join (y # ys) sep"

text \<open>
  One iteration of the loop over the headers: the \<^verbatim>\<open>switch\<close> on the column name. The state
  is the item under construction, the categories collected so far and the clock count.
\<close>

definition fromRecord_step ::
  "env \<Rightarrow> string list \<Rightarrow> nat \<Rightarrow> string \<Rightarrow> item \<times> string list \<times> nat
     \<Rightarrow> error + (item \<times> string list \<times> nat)" where
  "fromRecord_step env flds i h st =
     (case st of (e, cats, clk) \<Rightarrow>
        if h = ''date'' then
          (case get flds (int i) of
             Inl err \<Rightarrow> Inl err
           | Inr v \<Rightarrow>
               (case parseDate env clk v of
                  (d, clk') \<Rightarrow> Inr (e\<lparr>item_PubDate := time_Format env d RFC1123Z\<rparr>, cats, clk')))
        else if h = ''description'' then
          (case get flds (int i) of
             Inl err \<Rightarrow> Inl err
           | Inr v \<Rightarrow> Inr (e\<lparr>item_Title := v\<rparr>, cats, clk))
        else if h = ''article'' then
          (case get flds (int i) of
             Inl err \<Rightarrow> Inl err
           | Inr v \<Rightarrow> Inr (e\<lparr>item_Link := v\<rparr>, cats, clk))
        else if h = ''activity'' \<or> h = ''branch'' then
          (case get flds (int i) of
             Inl err \<Rightarrow> Inl err
           | Inr v \<Rightarrow> Inr (e, cats @ [v], clk))
        else if h = ''detail'' then
          (case get flds (int i) of
             Inl err \<Rightarrow> Inl err
           | Inr v \<Rightarrow> Inr (e\<lparr>item_Description := v\<rparr>, cats, clk))
        else Inr (e, cats, clk))"

text \<open>\<^verbatim>\<open>for i, h := range headers\<close>, with \<open>i\<close> the index of the head of the remaining headers.\<close>

fun fromRecord_loop ::
  "env \<Rightarrow> string list \<Rightarrow> nat \<Rightarrow> string list \<Rightarrow> item \<times> string list \<times> nat
     \<Rightarrow> error + (item \<times> string list \<times> nat)" where
  "fromRecord_loop env flds i [] st = Inr st"
| "fromRecord_loop env flds i (h # hs) st =
     (case fromRecord_step env flds i h st of
        Inl err \<Rightarrow> Inl err
      | Inr st' \<Rightarrow> fromRecord_loop env flds (Suc i) hs st')"

definition fromRecord ::
  "env \<Rightarrow> string list \<Rightarrow> string list \<Rightarrow> item \<times> nat \<Rightarrow> error + (item \<times> nat)" where
  "fromRecord env headers flds st =
     (case st of (e, clk) \<Rightarrow>
        (case fromRecord_loop env flds 0 headers (e, [], clk) of
           Inl err \<Rightarrow> Inl err
         | Inr (e', cats, clk') \<Rightarrow> Inr (e'\<lparr>item_Category := strings_Join cats '',''\<rparr>, clk')))"

section \<open>The CSV reader\<close>

text \<open>
  \<^verbatim>\<open>csv.NewReader\<close> leaves \<^verbatim>\<open>FieldsPerRecord\<close> at 0. \<^verbatim>\<open>Reader.Read\<close> of \<^verbatim>\<open>encoding/csv\<close>
  takes the next record from the lexer and then applies the rule of that field: a positive
  value is the number of fields every record must have, 0 is replaced by the number of
  fields of the record just read, a negative value switches the check off. The function
  takes the field and the lexer's outcome and returns the result and the field.
\<close>

definition csv_Read :: "int \<Rightarrow> error + string list \<Rightarrow> (error + string list) \<times> int" where
  "csv_Read FieldsPerRecord lexed =
     (case lexed of
        Inl err \<Rightarrow> (Inl err, FieldsPerRecord)
      | Inr record \<Rightarrow>
          if FieldsPerRecord > 0 then
            (if int (length record) \<noteq> FieldsPerRecord then (Inl CsvErrFieldCount, FieldsPerRecord)
             else (Inr record, FieldsPerRecord))
          else if FieldsPerRecord = 0 then (Inr record, int (length record))
          else (Inr record, FieldsPerRecord))"

text \<open>\<^verbatim>\<open>Reader.ReadAll\<close>: read until the end of the input, stop at the first error.\<close>

fun csv_ReadAll_loop :: "int \<Rightarrow> reader \<Rightarrow> string list list \<Rightarrow> error + string list list" where
  "csv_ReadAll_loop FieldsPerRecord [] records = Inr records"
| "csv_ReadAll_loop FieldsPerRecord (lexed # rest) records =
     (case csv_Read FieldsPerRecord lexed of
        (Inl err, _) \<Rightarrow> Inl err
      | (Inr record, FieldsPerRecord') \<Rightarrow>
          csv_ReadAll_loop FieldsPerRecord' rest (records @ [record]))"

definition csv_ReadAll :: "reader \<Rightarrow> error + string list list" where
  "csv_ReadAll r = csv_ReadAll_loop 0 r []"

section \<open>fromCSV\<close>

text \<open>Go's \<^verbatim>\<open>int\<close> is a 64-bit two's complement integer: arithmetic wraps around.\<close>

definition int64 :: "int \<Rightarrow> int" where
  "int64 k = signed_take_bit 63 k"

text \<open>
  \<^verbatim>\<open>for i := len(records) - 1; i > start; i--\<close>: each iteration maps one row to a fresh item
  and appends it. The decrement cannot wrap around, since it happens only when \<open>i > start\<close>.
\<close>

function fromCSV_loop ::
  "env \<Rightarrow> string list \<Rightarrow> string list list \<Rightarrow> int \<Rightarrow> int \<Rightarrow> item list \<Rightarrow> nat
     \<Rightarrow> error + (item list \<times> nat)" where
  "fromCSV_loop env headers records start i out clk =
     (if i > start then
        (case index records i of
           Inl err \<Rightarrow> Inl err
         | Inr flds \<Rightarrow>
             (case fromRecord env headers flds (new_item, clk) of
                Inl err \<Rightarrow> Inl err
              | Inr (e, clk') \<Rightarrow>
                  fromCSV_loop env headers records start (i - 1) (out @ [e]) clk'))
      else Inr (out, clk))"
  by pat_completeness auto
termination
  by (relation "measure (\<lambda>(env, headers, records, start, i, out, clk). nat (i - start))") auto

text \<open>
  The method mutates the receiver \<^verbatim>\<open>rs\<close> and returns an \<^verbatim>\<open>error\<close>. The model takes the
  receiver and the clock count and returns the error (\<open>None\<close> is \<^verbatim>\<open>nil\<close>) with both. A
  panic ends the process; the state returned with it is the one before the call.
\<close>

definition fromCSV :: "env \<Rightarrow> reader \<Rightarrow> int \<Rightarrow> rss \<times> nat \<Rightarrow> error option \<times> rss \<times> nat" where
  "fromCSV env r maxRecords st =
     (case st of (rs, clk) \<Rightarrow>
        (case csv_ReadAll r of
           Inl err \<Rightarrow> (Some err, rs, clk)
         | Inr records \<Rightarrow>
             if length records \<le> 1 then (Some (ErrorsNew ''no records''), rs, clk)
             else
               (case index records 0 of
                  Inl err \<Rightarrow> (Some err, rs, clk)
                | Inr headers \<Rightarrow>
                    let start0 = int64 (int (length records) - maxRecords);
                        start = (if start0 \<le> 0 then 1 else start0)
                    in
                      if int (length records) - start < 0 then (Some MakeSliceCapOutOfRange, rs, clk)
                      else
                        (case fromCSV_loop env headers records start (int (length records) - 1) [] clk of
                           Inl err \<Rightarrow> (Some err, rs, clk)
                         | Inr (out, clk') \<Rightarrow>
                             (None,
                              rs\<lparr>Version := ''2.0'',
                                 Channel := Some \<lparr>channel_Title = Title, channel_Link = URL,
                                   channel_Description = Desc, channel_Items = out\<rparr>\<rparr>,
                              clk')))))"

text \<open>The items of a feed document; a \<^verbatim>\<open>nil\<close> channel has none.\<close>

definition items_of :: "rss \<Rightarrow> item list" where
  "items_of rs = (case Channel rs of None \<Rightarrow> [] | Some c \<Rightarrow> channel_Items c)"

section \<open>The cache: get, refresh, ServeHTTP, main\<close>

text \<open>
  \<^verbatim>\<open>get\<close> of \<^verbatim>\<open>sheet2rss\<close> (named \<open>sheet2rss_get\<close> here, \<open>get\<close> being the closure of
  \<^verbatim>\<open>fromRecord\<close>): the reader over the body read, and the error of \<^verbatim>\<open>http.Get\<close> or of
  \<^verbatim>\<open>ioutil.ReadAll\<close>.
\<close>

definition sheet2rss_get :: "env \<Rightarrow> sheet2rss \<Rightarrow> reader \<times> error option" where
  "sheet2rss_get env s =
     (case http_Get env (url s) of
        Inl err \<Rightarrow> ([], Some err)
      | Inr (body, err) \<Rightarrow> (body, err))"

text \<open>
  \<^verbatim>\<open>fmt.Sprintf("% x", hash)\<close> on a byte array: every byte as two lower-case hexadecimal
  digits, \<^verbatim>\<open>digits[c>>4]\<close> and \<^verbatim>\<open>digits[c&0xF]\<close>, and with the space flag one space between
  consecutive bytes.
\<close>

definition hexdigit :: "nat \<Rightarrow> char" where
  "hexdigit n = ''0123456789abcdef'' ! (n mod 16)"

definition hexbyte :: "char \<Rightarrow> string" where
  "hexbyte c = [hexdigit (of_char c div 16), hexdigit (of_char c mod 16)]"

fun Sprintf_space_x :: "string \<Rightarrow> string" where
  "Sprintf_space_x [] = ''''"
| "Sprintf_space_x [c] = hexbyte c"
| "Sprintf_space_x (c # d # cs) = hexbyte c @ '' '' @ Sprintf_space_x (d # cs)"

text \<open>
  \<^verbatim>\<open>refresh\<close>: \<^verbatim>\<open>log.Fatal\<close> ends the process, which is the result \<open>Inl\<close>. Otherwise the
  method assigns \<^verbatim>\<open>s.digest\<close>, \<^verbatim>\<open>s.cached\<close> and \<^verbatim>\<open>s.ready\<close>, in this order; the result is
  the list of the states of \<^verbatim>\<open>s\<close> after each of the three assignments, with the clock count.
\<close>

definition refresh_trace :: "env \<Rightarrow> sheet2rss \<times> nat \<Rightarrow> error + (sheet2rss list \<times> nat)" where
  "refresh_trace env st =
     (case st of (s, clk) \<Rightarrow>
        (case sheet2rss_get env s of
           (r, Some err) \<Rightarrow> Inl err
         | (r, None) \<Rightarrow>
             (case fromCSV env r NumEntries (new_rss, clk) of
                (Some err, feed, clk') \<Rightarrow> Inl err
              | (None, feed, clk') \<Rightarrow>
                  (case xml_Marshal env feed of
                     Inl err \<Rightarrow> Inl err
                   | Inr content \<Rightarrow>
                       let hash = sha1_Sum env content;
                           s1 = s\<lparr>digest := Sprintf_space_x hash\<rparr>;
                           s2 = s1\<lparr>cached := content\<rparr>;
                           s3 = s2\<lparr>ready := True\<rparr>
                       in Inr ([s1, s2, s3], clk')))))"

definition refresh :: "env \<Rightarrow> sheet2rss \<times> nat \<Rightarrow> error + (sheet2rss \<times> nat)" where
  "refresh env st =
     (case refresh_trace env st of
        Inl err \<Rightarrow> Inl err
      | Inr (tr, clk') \<Rightarrow> Inr (last tr, clk'))"

text \<open>
  The \<^verbatim>\<open>http.ResponseWriter\<close>: \<^verbatim>\<open>WriteHeader\<close> sets the status once, the first \<^verbatim>\<open>Write\<close>
  without it sends status 200, and so does a handler that returns without either.
\<close>

record response =
  wroteHeader :: bool
  status :: nat
  body :: string


definition StatusOK :: nat where
  "StatusOK = 200"

definition StatusNotFound :: nat where
  "StatusNotFound = 404"

definition StatusMethodNotAllowed :: nat where
  "StatusMethodNotAllowed = 405"

definition MethodGet :: string where
  "MethodGet = ''GET''"

definition WriteHeader :: "nat \<Rightarrow> response \<Rightarrow> response" where
  "WriteHeader code w = (if wroteHeader w then w else w\<lparr>wroteHeader := True, status := code\<rparr>)"

definition Write :: "string \<Rightarrow> response \<Rightarrow> response" where
  "Write b w =
     (let w' = (if wroteHeader w then w else WriteHeader StatusOK w)
      in w'\<lparr>body := body w' @ b\<rparr>)"


record request =
  Method :: string

definition xml_declaration :: string where
  "xml_declaration = ''<?xml version=\"1.0\" encoding=\"UTF-8\" ?>''"

text \<open>
  \<^verbatim>\<open>ServeHTTP\<close> has a pointer receiver; the model returns the receiver with the response
  writer. \<^verbatim>\<open>content\<close> starts as the \<^verbatim>\<open>nil\<close> slice.
\<close>

definition ServeHTTP :: "sheet2rss \<Rightarrow> response \<Rightarrow> request \<Rightarrow> sheet2rss \<times> response" where
  "ServeHTTP s w r =
     (if Method r \<noteq> MethodGet then (s, WriteHeader StatusMethodNotAllowed w)
      else
        let content = (if ready s then cached s else [])
        in if length content > 0 then (s, Write content (Write xml_declaration w))
           else (s, WriteHeader StatusNotFound w))"


text \<open>
  \<^verbatim>\<open>main\<close> builds the handler from the environment variable \<^verbatim>\<open>SPREADSHEET_KEY\<close>; the fields
  it does not name have their zero values.
\<close>

definition sourceFmt :: "string \<Rightarrow> string" where
  "sourceFmt key = ''https://docs.google.com/spreadsheets/d/'' @ key @ ''/export?format=csv''"

definition main_handler :: "string \<Rightarrow> sheet2rss" where
  "main_handler key = \<lparr>url = sourceFmt key, ready = False, cached = [], digest = ''''\<rparr>"

text \<open>
  The operations that \<^verbatim>\<open>main\<close> starts on the handler: the stores of a \<^verbatim>\<open>refresh\<close> that does
  not end the process, one step each, and the serving of a request.
\<close>

inductive step :: "env \<Rightarrow> sheet2rss \<Rightarrow> sheet2rss \<Rightarrow> bool" for env :: env where
  step_refresh:
    "refresh_trace env (s, clk) = Inr (tr, clk') \<Longrightarrow> i < length tr \<Longrightarrow>
       step env (if i = 0 then s else tr ! (i - 1)) (tr ! i)"
| step_serve:
    "ServeHTTP s w r = (s', w') \<Longrightarrow> step env s s'"

section \<open>An environment for concrete inputs\<close>

text \<open>
  The theorems below hold for every environment. To run the model on a concrete input, an
  environment is needed; this section gives one. It follows the Go standard library where
  the examples need it:
  \<^item> \<open>example_Parse\<close> reads the two numeric layouts of \<open>layouts\<close> as \<^verbatim>\<open>time.Parse\<close> does
    (month, day and four-digit year separated by slashes, one or two digits for the layout
    \<^verbatim>\<open>1/2/2006\<close>, exactly two for \<^verbatim>\<open>01/02/2006\<close>, the day checked against the month, the
    result in UTC) and rejects every string for the other layouts. A string that the
    numeric layouts accept starts with digits followed by a slash, which none of the other
    five layouts accepts; so on the dates of the examples and on the empty string the
    function agrees with \<^verbatim>\<open>time.Parse\<close>.
  \<^item> \<open>example_Format\<close> renders the layout \<^verbatim>\<open>time.RFC1123Z\<close>, the only one main.go uses,
    and returns the empty string for any other layout.
  \<^item> \<open>example_Marshal\<close> writes the elements that the struct tags of \<^verbatim>\<open>rss\<close>, \<^verbatim>\<open>channel\<close>
    and \<^verbatim>\<open>item\<close> name, in field order, with the escapes of \<^verbatim>\<open>xml.EscapeText\<close> for the
    ASCII characters; bytes above 127 are copied.
  \<^item> \<open>SHA1\<close> is the hash function of FIPS 180-4 that \<^verbatim>\<open>sha1.Sum\<close> computes.
  \<^item> The clock starts at 20 Jan 2017 17:00:00 UTC and advances one second per reading,
    and every fetch returns the two-row sheet \<open>example_csv\<close>.
\<close>

subsection \<open>Dates\<close>

definition days_from_civil :: "int \<Rightarrow> int \<Rightarrow> int \<Rightarrow> int" where
  "days_from_civil y m d =
     (let y' = (if m \<le> 2 then y - 1 else y);
          era = y' div 400;
          yoe = y' - era * 400;
          doy = (153 * (if m > 2 then m - 3 else m + 9) + 2) div 5 + d - 1;
          doe = yoe * 365 + yoe div 4 - yoe div 100 + doy
      in era * 146097 + doe - 719468)"

definition civil_from_days :: "int \<Rightarrow> int \<times> int \<times> int" where
  "civil_from_days z =
     (let z' = z + 719468;
          era = z' div 146097;
          doe = z' - era * 146097;
          yoe = (doe - doe div 1460 + doe div 36524 - doe div 146096) div 365;
          doy = doe - (365 * yoe + yoe div 4 - yoe div 100);
          mp = (5 * doy + 2) div 153;
          d = doy - (153 * mp + 2) div 5 + 1;
          m = (if mp < 10 then mp + 3 else mp - 9);
          y = yoe + era * 400
      in (if m \<le> 2 then y + 1 else y, m, d))"

definition isLeap :: "int \<Rightarrow> bool" where
  "isLeap year = (year mod 4 = 0 \<and> (year mod 100 \<noteq> 0 \<or> year mod 400 = 0))"

definition daysIn :: "int \<Rightarrow> int \<Rightarrow> int" where
  "daysIn m year =
     (if m = 2 then (if isLeap year then 29 else 28)
      else if m = 4 \<or> m = 6 \<or> m = 9 \<or> m = 11 then 30 else 31)"

definition isDigit :: "char \<Rightarrow> bool" where
  "isDigit c = (48 \<le> (of_char c :: nat) \<and> (of_char c :: nat) \<le> 57)"

definition digit :: "char \<Rightarrow> int" where
  "digit c = int (of_char c) - 48"

fun getnum :: "string \<Rightarrow> bool \<Rightarrow> (int \<times> string) option" where
  "getnum [] fixed = None"
| "getnum [a] fixed = (if isDigit a \<and> \<not> fixed then Some (digit a, []) else None)"
| "getnum (a # b # rest) fixed =
     (if \<not> isDigit a then None
      else if \<not> isDigit b then (if fixed then None else Some (digit a, b # rest))
      else Some (digit a * 10 + digit b, rest))"

definition getyear :: "string \<Rightarrow> (int \<times> string) option" where
  "getyear s =
     (if length s < 4 \<or> \<not> list_all isDigit (take 4 s) then None
      else Some (foldl (\<lambda>n c. n * 10 + digit c) 0 (take 4 s), drop 4 s))"

definition skip :: "char \<Rightarrow> string \<Rightarrow> string option" where
  "skip c s = (case s of [] \<Rightarrow> None | x # rest \<Rightarrow> if x = c then Some rest else None)"

definition parse_mdy :: "bool \<Rightarrow> string \<Rightarrow> error + time" where
  "parse_mdy fixed s =
     (case getnum s fixed of None \<Rightarrow> Inl TimeParseError | Some (m, s1) \<Rightarrow>
      case skip (CHR ''/'') s1 of None \<Rightarrow> Inl TimeParseError | Some s2 \<Rightarrow>
      case getnum s2 fixed of None \<Rightarrow> Inl TimeParseError | Some (d, s3) \<Rightarrow>
      case skip (CHR ''/'') s3 of None \<Rightarrow> Inl TimeParseError | Some s4 \<Rightarrow>
      case getyear s4 of None \<Rightarrow> Inl TimeParseError | Some (y, s5) \<Rightarrow>
        if s5 \<noteq> [] \<or> m < 1 \<or> 12 < m \<or> d < 1 \<or> daysIn m y < d then Inl TimeParseError
        else Inr \<lparr>instant = days_from_civil y m d * 86400 * 1000000000, loc = UTC\<rparr>)"

definition example_Parse :: "string \<Rightarrow> string \<Rightarrow> error + time" where
  "example_Parse layout s =
     (if layout = ''1/2/2006'' then parse_mdy False s
      else if layout = ''01/02/2006'' then parse_mdy True s
      else Inl TimeParseError)"

definition pad2 :: "int \<Rightarrow> string" where
  "pad2 n = [char_of (48 + n div 10 mod 10), char_of (48 + n mod 10)]"

definition pad4 :: "int \<Rightarrow> string" where
  "pad4 n = pad2 (n div 100) @ pad2 (n mod 100)"

definition offset :: "location \<Rightarrow> int" where
  "offset l = (case l of UTC \<Rightarrow> 0 | Local \<Rightarrow> 0 | FixedZone name secs \<Rightarrow> secs)"

definition format_RFC1123Z :: "time \<Rightarrow> string" where
  "format_RFC1123Z t =
     (let secs = instant t div 1000000000 + offset (loc t);
          days = secs div 86400;
          rem = secs mod 86400;
          (y, m, d) = civil_from_days days;
          off = offset (loc t) div 60
      in [''Sun'', ''Mon'', ''Tue'', ''Wed'', ''Thu'', ''Fri'', ''Sat''] ! nat ((days + 4) mod 7)
         @ '', '' @ pad2 d @ '' ''
         @ [''Jan'', ''Feb'', ''Mar'', ''Apr'', ''May'', ''Jun'', ''Jul'', ''Aug'', ''Sep'', ''Oct'',
            ''Nov'', ''Dec''] ! nat (m - 1)
         @ '' '' @ pad4 y @ '' '' @ pad2 (rem div 3600) @ '':'' @ pad2 (rem div 60 mod 60) @ '':''
         @ pad2 (rem mod 60) @ '' ''
         @ (if off < 0 then ''-'' else ''+'') @ pad2 (\<bar>off\<bar> div 60) @ pad2 (\<bar>off\<bar> mod 60))"

definition example_Format :: "time \<Rightarrow> string \<Rightarrow> string" where
  "example_Format t layout = (if layout = RFC1123Z then format_RFC1123Z t else '''')"

definition example_Now :: "nat \<Rightarrow> time" where
  "example_Now n = \<lparr>instant = (1484931600 + int n) * 1000000000, loc = Local\<rparr>"

subsection \<open>XML\<close>

definition EscapeText :: "string \<Rightarrow> string" where
  "EscapeText s =
     concat (map (\<lambda>c.
       if c = CHR 0x22 then ''&#34;''
       else if c = CHR 0x27 then ''&#39;''
       else if c = CHR ''&'' then ''&amp;''
       else if c = CHR ''<'' then ''&lt;''
       else if c = CHR ''>'' then ''&gt;''
       else if c = CHR 0x09 then ''&#x9;''
       else if c = CHR 0x0A then ''&#xA;''
       else if c = CHR 0x0D then ''&#xD;''
       else if (of_char c :: nat) < 32 then [CHR 0xEF, CHR 0xBF, CHR 0xBD]
       else [c]) s)"

definition xml_element :: "string \<Rightarrow> string \<Rightarrow> string" where
  "xml_element name s = ''<'' @ name @ ''>'' @ EscapeText s @ ''</'' @ name @ ''>''"

definition marshal_item :: "item \<Rightarrow> string" where
  "marshal_item e =
     ''<item>'' @ xml_element ''title'' (item_Title e) @ xml_element ''link'' (item_Link e)
       @ xml_element ''description'' (item_Description e)
       @ (if item_PubDate e = [] then [] else xml_element ''pubDate'' (item_PubDate e))
       @ (if item_Category e = [] then [] else xml_element ''category'' (item_Category e))
       @ ''</item>''"

definition marshal_channel :: "channel \<Rightarrow> string" where
  "marshal_channel c =
     ''<channel>'' @ xml_element ''title'' (channel_Title c) @ xml_element ''link'' (channel_Link c)
       @ xml_element ''description'' (channel_Description c)
       @ concat (map marshal_item (channel_Items c)) @ ''</channel>''"

definition example_Marshal :: "rss \<Rightarrow> error + string" where
  "example_Marshal rs =
     Inr (''<rss version=\"'' @ EscapeText (Version rs) @ ''\">''
          @ (case Channel rs of None \<Rightarrow> [] | Some c \<Rightarrow> marshal_channel c) @ ''</rss>'')"

subsection \<open>SHA-1\<close>

definition rotl :: "nat \<Rightarrow> 32 word \<Rightarrow> 32 word" where
  "rotl n w = push_bit n w OR drop_bit (32 - n) w"

definition be32 :: "string \<Rightarrow> 32 word" where
  "be32 b = foldl (\<lambda>w c. push_bit 8 w OR of_char c) 0 (take 4 b)"

fun bytes_be :: "nat \<Rightarrow> int \<Rightarrow> string" where
  "bytes_be 0 v = []"
| "bytes_be (Suc n) v = bytes_be n (v div 256) @ [char_of v]"

definition sha1_pad :: "string \<Rightarrow> string" where
  "sha1_pad m =
     m @ [char_of (128::nat)] @ replicate ((119 - length m mod 64) mod 64) (char_of (0::nat))
       @ bytes_be 8 (8 * int (length m))"

fun sha1_words :: "string \<Rightarrow> 32 word list" where
  "sha1_words (a # b # c # d # rest) = be32 [a, b, c, d] # sha1_words rest"
| "sha1_words _ = []"

fun sha1_schedule :: "nat \<Rightarrow> 32 word list \<Rightarrow> 32 word list" where
  "sha1_schedule 0 w = w"
| "sha1_schedule (Suc n) w =
     sha1_schedule n
       (w @ [rotl 1 (w ! (length w - 3) XOR w ! (length w - 8) XOR w ! (length w - 14)
               XOR w ! (length w - 16))])"

type_synonym sha1_state = "32 word \<times> 32 word \<times> 32 word \<times> 32 word \<times> 32 word"

definition sha1_round :: "nat \<Rightarrow> 32 word \<Rightarrow> sha1_state \<Rightarrow> sha1_state" where
  "sha1_round t wt st =
     (case st of (a, b, c, d, e) \<Rightarrow>
        let f = (if t < 20 then (b AND c) OR (NOT b AND d)
                 else if t < 40 then b XOR c XOR d
                 else if t < 60 then (b AND c) OR (b AND d) OR (c AND d)
                 else b XOR c XOR d);
            k = (if t < 20 then 0x5A827999 else if t < 40 then 0x6ED9EBA1
                 else if t < 60 then 0x8F1BBCDC else 0xCA62C1D6)
        in (rotl 5 a + f + e + k + wt, a, rotl 30 b, c, d))"

fun sha1_rounds :: "nat \<Rightarrow> 32 word list \<Rightarrow> sha1_state \<Rightarrow> sha1_state" where
  "sha1_rounds t [] st = st"
| "sha1_rounds t (wt # ws) st = sha1_rounds (Suc t) ws (sha1_round t wt st)"

definition sha1_block :: "sha1_state \<Rightarrow> 32 word list \<Rightarrow> sha1_state" where
  "sha1_block h w16 =
     (case h of (h0, h1, h2, h3, h4) \<Rightarrow>
        (case sha1_rounds 0 (sha1_schedule 64 w16) h of (a, b, c, d, e) \<Rightarrow>
           (h0 + a, h1 + b, h2 + c, h3 + d, h4 + e)))"

fun sha1_blocks :: "sha1_state \<Rightarrow> 32 word list \<Rightarrow> nat \<Rightarrow> sha1_state" where
  "sha1_blocks h ws 0 = h"
| "sha1_blocks h ws (Suc n) = sha1_blocks (sha1_block h (take 16 ws)) (drop 16 ws) n"

definition SHA1 :: "string \<Rightarrow> string" where
  "SHA1 m =
     (let ws = sha1_words (sha1_pad m) in
      case sha1_blocks (0x67452301, 0xEFCDAB89, 0x98BADCFE, 0x10325476, 0xC3D2E1F0) ws
             (length ws div 16)
      of (h0, h1, h2, h3, h4) \<Rightarrow> concat (map (\<lambda>h. bytes_be 4 (uint h)) [h0, h1, h2, h3, h4]))"

subsection \<open>The example sheet and environment\<close>

definition example_header :: "string list" where
  "example_header = [''date'', ''description'', ''article'', ''activity'', ''branch'', ''detail'']"

definition example_row1 :: "string list" where
  "example_row1 =
     [''1/2/2017'', ''Bill signed'', ''http://x/1'', ''signing'', ''executive'', ''Some detail'']"

definition example_row2 :: "string list" where
  "example_row2 =
     [''1/5/2017'', ''Vote held'', ''http://x/2'', ''vote'', ''legislative'', ''Another detail'']"

definition example_csv :: reader where
  "example_csv = [Inr example_header, Inr example_row1, Inr example_row2]"

definition example_env :: env where
  "example_env =
     \<lparr>time_Parse = example_Parse, time_Format = example_Format, time_Now = example_Now,
      http_Get = (\<lambda>u. Inr (example_csv, None)), xml_Marshal = example_Marshal,
      sha1_Sum = SHA1\<rparr>"

text \<open>What \<^verbatim>\<open>xml.Marshal\<close> gives for the feed built from the example sheet, and the state of the
  handler after a refresh in the example environment.\<close>

definition example_xml :: string where
  "example_xml = ''<rss version=\"2.0\"><channel><title>Federal Government 2017</title><link>http://jlord.us/federal-gov/</link><description>Summaries of events from the US Government.</description><item><title>Vote held</title><link>http://x/2</link><description>Another detail</description><pubDate>Thu, 05 Jan 2017 00:00:00 +0000</pubDate><category>vote,legislative</category></item></channel></rss>''"

definition example_cache :: sheet2rss where
  "example_cache =
     \<lparr>url = sourceFmt ''KEY'', ready = True, cached = example_xml,
      digest = Sprintf_space_x (SHA1 example_xml)\<rparr>"

section \<open>Notions used in the statements\<close>

text \<open>The value that the closure \<^verbatim>\<open>get\<close> yields for a column index: the field, or the empty
  string past the end of the row.\<close>

definition field_or_empty :: "string list \<Rightarrow> nat \<Rightarrow> string" where
  "field_or_empty flds k = (if k < length flds then flds ! k else '''')"

text \<open>The three columns that the \<^verbatim>\<open>switch\<close> of \<^verbatim>\<open>fromRecord\<close> copies into a field as they are.\<close>

definition plain_column :: "string \<Rightarrow> (item \<Rightarrow> string) \<Rightarrow> bool" where
  "plain_column name proj =
     ((name = ''description'' \<and> proj = item_Title) \<or> (name = ''article'' \<and> proj = item_Link) \<or>
      (name = ''detail'' \<and> proj = item_Description))"

text \<open>The number of \<^verbatim>\<open>date\<close> columns among the given headers whose value no layout parses:
  each of them makes the date parser read the clock once.\<close>

definition date_fallbacks :: "env \<Rightarrow> string list \<Rightarrow> string list \<Rightarrow> nat" where
  "date_fallbacks env flds hs =
     length [k \<leftarrow> [0..<length hs]. hs ! k = ''date'' \<and>
               parseDate_loop env (field_or_empty flds k) layouts = None]"

text \<open>The contiguous hexadecimal encoding of a byte sequence, two digits per byte and nothing
  between the bytes, as \<^verbatim>\<open>hex.EncodeToString\<close> gives it: the usual reading of ``hex-encoded''.\<close>

definition hex_EncodeToString :: "string \<Rightarrow> string" where
  "hex_EncodeToString b = concat (map hexbyte b)"

section \<open>Date Parser\<close>

lemma parseDate_loop_first:
  assumes "ls = pre @ x # post" and "\<forall>y \<in> set pre. isl (time_Parse env y s)"
    and "time_Parse env x s = Inr p"
  shows "parseDate_loop env s ls = Some (Time_UTC p)"
  using assms
proof (induction pre arbitrary: ls)
  case Nil
  then show ?case by simp
next
  case (Cons y pre)
  from Cons.prems(2) obtain err where "time_Parse env y s = Inl err"
    by (cases "time_Parse env y s") auto
  with Cons show ?case by simp
qed

lemma parseDate_loop_none:
  assumes "\<forall>y \<in> set ls. isl (time_Parse env y s)"
  shows "parseDate_loop env s ls = None"
  using assms
proof (induction ls)
  case Nil
  then show ?case by simp
next
  case (Cons y ls)
  from Cons.prems obtain err where "time_Parse env y s = Inl err"
    by (cases "time_Parse env y s") auto
  with Cons show ?case by simp
qed

text \<open>
  C5. When some layout of the list parses the string, \<^verbatim>\<open>parseDate\<close> returns the result of the
  first layout that does (every layout before it fails), with the location set to UTC and the
  instant unchanged, and does not read the clock. When no layout parses the string, it returns
  the current reading of the wall clock in UTC, and no error.
\<close>

theorem parseDate_first_or_now:
  "(\<forall>pre x post p. layouts = pre @ x # post \<and> (\<forall>y \<in> set pre. isl (time_Parse env y s)) \<and>
        time_Parse env x s = Inr p \<longrightarrow>
      parseDate env clk s = (Time_UTC p, clk) \<and>
      instant (fst (parseDate env clk s)) = instant p \<and> loc (fst (parseDate env clk s)) = UTC) \<and>
   ((\<forall>y \<in> set layouts. isl (time_Parse env y s)) \<longrightarrow>
      parseDate env clk s = (Time_UTC (time_Now env clk), Suc clk) \<and>
      instant (fst (parseDate env clk s)) = instant (time_Now env clk) \<and>
      loc (fst (parseDate env clk s)) = UTC)"
proof (intro conjI allI impI)
  fix pre x post p
  assume a: "layouts = pre @ x # post \<and> (\<forall>y \<in> set pre. isl (time_Parse env y s)) \<and>
        time_Parse env x s = Inr p"
  then have "parseDate_loop env s layouts = Some (Time_UTC p)"
    using parseDate_loop_first by blast
  then have r: "parseDate env clk s = (Time_UTC p, clk)"
    by (simp add: parseDate_def)
  show "parseDate env clk s = (Time_UTC p, clk)" by (rule r)
  show "instant (fst (parseDate env clk s)) = instant p" by (simp add: r Time_UTC_def)
  show "loc (fst (parseDate env clk s)) = UTC" by (simp add: r Time_UTC_def)
next
  assume "\<forall>y \<in> set layouts. isl (time_Parse env y s)"
  then have "parseDate_loop env s layouts = None"
    by (rule parseDate_loop_none)
  then have r: "parseDate env clk s = (Time_UTC (time_Now env clk), Suc clk)"
    by (simp add: parseDate_def)
  show "parseDate env clk s = (Time_UTC (time_Now env clk), Suc clk)" by (rule r)
  show "instant (fst (parseDate env clk s)) = instant (time_Now env clk)"
    by (simp add: r Time_UTC_def)
  show "loc (fst (parseDate env clk s)) = UTC" by (simp add: r Time_UTC_def)
qed

lemma example_fail5:
  "\<forall>y \<in> set [RFC3339, RFC3339Nano, Stamp, RFC822, RFC822Z]. isl (time_Parse example_env y s)"
  by (simp add: example_env_def example_Parse_def RFC3339_def RFC3339Nano_def Stamp_def
      RFC822_def RFC822Z_def)

theorem parseDate_first_or_now_witness:
  "layouts = [RFC3339, RFC3339Nano, Stamp, RFC822, RFC822Z] @ ''1/2/2006'' # [''01/02/2006''] \<and>
   time_Parse example_env ''1/2/2006'' ''1/5/2017''
     = Inr \<lparr>instant = 1483574400000000000, loc = UTC\<rparr> \<and>
   parseDate example_env 7 ''1/5/2017'' = (\<lparr>instant = 1483574400000000000, loc = UTC\<rparr>, 7) \<and>
   parseDate example_env 7 ''soon'' = (\<lparr>instant = 1484931607000000000, loc = UTC\<rparr>, 8)"
proof -
  have l: "layouts = [RFC3339, RFC3339Nano, Stamp, RFC822, RFC822Z] @ ''1/2/2006'' # [''01/02/2006'']"
    by (simp add: layouts_def)
  have p: "time_Parse example_env ''1/2/2006'' ''1/5/2017''
     = Inr \<lparr>instant = 1483574400000000000, loc = UTC\<rparr>"
    by code_simp
  have n: "\<forall>y \<in> set layouts. isl (time_Parse example_env y ''soon'')"
    by code_simp
  have now: "Time_UTC (time_Now example_env 7) = \<lparr>instant = 1484931607000000000, loc = UTC\<rparr>"
    by code_simp
  from parseDate_first_or_now [of example_env "''1/5/2017''" 7, THEN conjunct1, rule_format,
      of "[RFC3339, RFC3339Nano, Stamp, RFC822, RFC822Z]" "''1/2/2006''" "[''01/02/2006'']"
        "\<lparr>instant = 1483574400000000000, loc = UTC\<rparr>"] l p example_fail5
  have 1: "parseDate example_env 7 ''1/5/2017'' = (\<lparr>instant = 1483574400000000000, loc = UTC\<rparr>, 7)"
    by (simp add: Time_UTC_def)
  from parseDate_first_or_now [of example_env "''soon''" 7, THEN conjunct2] n now
  have 2: "parseDate example_env 7 ''soon'' = (\<lparr>instant = 1484931607000000000, loc = UTC\<rparr>, 8)"
    by simp
  from l p 1 2 show ?thesis by simp
qed

section \<open>Record Mapper\<close>

lemma get_total: "get flds (int k) = Inr (field_or_empty flds k)"
  by (simp add: get_def index_def field_or_empty_def)

lemma fromRecord_step_total:
  "\<exists>st'. fromRecord_step env flds k h st = Inr st'"
proof -
  obtain e cats clk where st: "st = (e, cats, clk)"
    by (cases st) auto
  show ?thesis
    unfolding st by (simp add: fromRecord_step_def get_total split: prod.splits)
qed

lemma fromRecord_loop_total:
  "\<exists>st'. fromRecord_loop env flds k hs st = Inr st'"
proof (induction hs arbitrary: k st)
  case Nil
  show ?case by (simp del: split_paired_Ex)
next
  case (Cons h hs)
  obtain st1 where s: "fromRecord_step env flds k h st = Inr st1"
    using fromRecord_step_total by blast
  with Cons.IH [of "Suc k" st1] show ?case by simp
qed

lemma fromRecord_loop_append:
  "fromRecord_loop env flds i (xs @ ys) st =
     (case fromRecord_loop env flds i xs st of
        Inl err \<Rightarrow> Inl err
      | Inr st' \<Rightarrow> fromRecord_loop env flds (i + length xs) ys st')"
proof (induction xs arbitrary: i st)
  case Nil
  then show ?case by simp
next
  case (Cons x xs)
  show ?case
  proof (cases "fromRecord_step env flds i x st")
    case (Inl a)
    then show ?thesis by simp
  next
    case (Inr st1)
    show ?thesis
      using Cons.IH [of "Suc i" st1] Inr by (simp split: sum.splits)
  qed
qed


lemma step_keeps:
  assumes "plain_column name proj \<or> (name = ''date'' \<and> proj = item_PubDate)" and "h \<noteq> name"
    and "fromRecord_step env flds i h (e, cats, clk) = Inr (e', cats', clk')"
  shows "proj e' = proj e"
  using assms
  by (auto simp: plain_column_def fromRecord_step_def split: if_splits sum.splits prod.splits)

lemma step_sets_plain:
  assumes "plain_column name proj"
    and "fromRecord_step env flds k name (e, cats, clk) = Inr (e', cats', clk')"
  shows "proj e' = field_or_empty flds k"
  using assms
  by (auto simp: plain_column_def fromRecord_step_def get_total split: if_splits sum.splits)

lemma step_sets_date:
  assumes "fromRecord_step env flds k ''date'' (e, cats, clk) = Inr (e', cats', clk')"
  shows "item_PubDate e' = time_Format env (fst (parseDate env clk (field_or_empty flds k))) RFC1123Z"
  using assms
  by (auto simp: fromRecord_step_def get_total split: prod.splits)

lemma step_unknown:
  assumes "h \<notin> {''date'', ''description'', ''article'', ''activity'', ''branch'', ''detail''}"
  shows "fromRecord_step env flds i h st = Inr st"
  using assms by (cases st) (simp add: fromRecord_step_def)

lemma step_cats:
  "fromRecord_step env flds k h (e, cats, clk) = Inr (e', cats', clk')
     \<Longrightarrow> cats' = cats @ (if h = ''activity'' \<or> h = ''branch'' then [field_or_empty flds k] else [])"
  by (auto simp: fromRecord_step_def get_total split: if_splits sum.splits prod.splits)

lemma step_keeps_Category:
  "fromRecord_step env flds i h (e, cats, clk) = Inr (e', cats', clk')
     \<Longrightarrow> item_Category e' = item_Category e"
  by (auto simp: fromRecord_step_def split: if_splits sum.splits prod.splits)

lemma loop_keeps:
  assumes "plain_column name proj \<or> (name = ''date'' \<and> proj = item_PubDate)"
  shows "name \<notin> set hs \<Longrightarrow>
     fromRecord_loop env flds i hs (e, cats, clk) = Inr (e', cats', clk') \<Longrightarrow> proj e' = proj e"
proof (induction hs arbitrary: i e cats clk)
  case Nil
  then show ?case by simp
next
  case (Cons h hs)
  obtain e1 cats1 clk1 where s: "fromRecord_step env flds i h (e, cats, clk) = Inr (e1, cats1, clk1)"
    using fromRecord_step_total [of env flds i h "(e, cats, clk)"] by auto
  from Cons.prems s have "fromRecord_loop env flds (Suc i) hs (e1, cats1, clk1) = Inr (e', cats', clk')"
    by simp
  with Cons.IH Cons.prems(1) have "proj e' = proj e1" by simp
  moreover from Cons.prems(1) have "h \<noteq> name" by auto
  from step_keeps [OF assms this s] have "proj e1 = proj e" .
  ultimately show ?case by simp
qed

lemma loop_last_plain:
  assumes "plain_column name proj"
    and "headers = pre @ name # post" and "name \<notin> set post"
    and "fromRecord_loop env flds 0 headers (e, cats, clk) = Inr (e', cats', clk')"
  shows "proj e' = field_or_empty flds (length pre)"
proof -
  obtain e1 cats1 clk1 where l1: "fromRecord_loop env flds 0 pre (e, cats, clk) = Inr (e1, cats1, clk1)"
    using fromRecord_loop_total [of env flds 0 pre "(e, cats, clk)"] by auto
  obtain e2 cats2 clk2 where
    s: "fromRecord_step env flds (length pre) name (e1, cats1, clk1) = Inr (e2, cats2, clk2)"
    using fromRecord_step_total [of env flds "length pre" name "(e1, cats1, clk1)"] by auto
  from assms(2,4) l1 s have
    "fromRecord_loop env flds (Suc (length pre)) post (e2, cats2, clk2) = Inr (e', cats', clk')"
    by (simp add: fromRecord_loop_append)
  with assms(1,3) have "proj e' = proj e2"
    using loop_keeps by blast
  with step_sets_plain [OF assms(1) s] show ?thesis by simp
qed

lemma loop_Category:
  "fromRecord_loop env flds i hs (e, cats, clk) = Inr (e', cats', clk') \<Longrightarrow>
     item_Category e' = item_Category e"
proof (induction hs arbitrary: i e cats clk)
  case Nil
  then show ?case by simp
next
  case (Cons h hs)
  obtain e1 cats1 clk1 where s: "fromRecord_step env flds i h (e, cats, clk) = Inr (e1, cats1, clk1)"
    using fromRecord_step_total [of env flds i h "(e, cats, clk)"] by auto
  from Cons.prems s have "fromRecord_loop env flds (Suc i) hs (e1, cats1, clk1) = Inr (e', cats', clk')"
    by simp
  with Cons.IH have "item_Category e' = item_Category e1" by simp
  with step_keeps_Category [OF s] show ?case by simp
qed

lemma loop_cats:
  "fromRecord_loop env flds i hs (e, cats, clk) = Inr (e', cats', clk') \<Longrightarrow>
     cats' = cats @ [field_or_empty flds (i + k). k \<leftarrow> [0..<length hs],
                       hs ! k = ''activity'' \<or> hs ! k = ''branch'']"
proof (induction hs arbitrary: i e cats clk)
  case Nil
  then show ?case by simp
next
  case (Cons h hs)
  obtain e1 cats1 clk1 where s: "fromRecord_step env flds i h (e, cats, clk) = Inr (e1, cats1, clk1)"
    using fromRecord_step_total [of env flds i h "(e, cats, clk)"] by auto
  from Cons.prems s have "fromRecord_loop env flds (Suc i) hs (e1, cats1, clk1) = Inr (e', cats', clk')"
    by simp
  from Cons.IH [OF this] have
    "cats' = cats1 @ [field_or_empty flds (Suc i + k). k \<leftarrow> [0..<length hs],
                        hs ! k = ''activity'' \<or> hs ! k = ''branch'']" .
  moreover have "[0..<length (h # hs)] = 0 # map Suc [0..<length hs]"
    by (simp add: upt_conv_Cons map_Suc_upt del: upt_Suc)
  ultimately show ?case
    using step_cats [OF s] by (simp add: comp_def del: upt_Suc cong: if_cong)
qed

lemma fromRecord_Inr:
  "\<exists>e1 cats1 clk1. fromRecord_loop env flds 0 headers (e, [], clk) = Inr (e1, cats1, clk1) \<and>
     fromRecord env headers flds (e, clk) = Inr (e1\<lparr>item_Category := strings_Join cats1 '',''\<rparr>, clk1)"
proof -
  obtain e1 cats1 clk1 where "fromRecord_loop env flds 0 headers (e, [], clk) = Inr (e1, cats1, clk1)"
    using fromRecord_loop_total [of env flds 0 headers "(e, [], clk)"] by auto
  then show ?thesis by (simp add: fromRecord_def)
qed

lemma fromRecord_absent:
  assumes "plain_column name proj \<or> (name = ''date'' \<and> proj = item_PubDate)"
    and "name \<notin> set headers"
    and "fromRecord env headers flds (e, clk) = Inr (e', clk')"
  shows "proj e' = proj e"
proof -
  obtain e1 cats1 clk1 where
    l: "fromRecord_loop env flds 0 headers (e, [], clk) = Inr (e1, cats1, clk1)" and
    r: "fromRecord env headers flds (e, clk) = Inr (e1\<lparr>item_Category := strings_Join cats1 '',''\<rparr>, clk1)"
    using fromRecord_Inr by blast
  from loop_keeps [OF assms(1,2) l] have "proj e1 = proj e" .
  moreover from assms(1) have "proj (e1\<lparr>item_Category := strings_Join cats1 '',''\<rparr>) = proj e1"
    by (auto simp: plain_column_def)
  ultimately show ?thesis using r assms(3) by simp
qed

lemma fromRecord_last_plain:
  assumes "plain_column name proj"
    and "headers = pre @ name # post" and "name \<notin> set post"
    and "fromRecord env headers flds (e, clk) = Inr (e', clk')"
  shows "proj e' = field_or_empty flds (length pre)"
proof -
  obtain e1 cats1 clk1 where
    l: "fromRecord_loop env flds 0 headers (e, [], clk) = Inr (e1, cats1, clk1)" and
    r: "fromRecord env headers flds (e, clk) = Inr (e1\<lparr>item_Category := strings_Join cats1 '',''\<rparr>, clk1)"
    using fromRecord_Inr by blast
  from loop_last_plain [OF assms(1,2,3) l] have "proj e1 = field_or_empty flds (length pre)" .
  moreover from assms(1) have "proj (e1\<lparr>item_Category := strings_Join cats1 '',''\<rparr>) = proj e1"
    by (auto simp: plain_column_def)
  ultimately show ?thesis using r assms(4) by simp
qed

lemma fromRecord_Category:
  assumes "fromRecord env headers flds (e, clk) = Inr (e', clk')"
  shows "item_Category e' =
           strings_Join [field_or_empty flds k. k \<leftarrow> [0..<length headers],
                           headers ! k = ''activity'' \<or> headers ! k = ''branch''] '',''"
proof -
  obtain e1 cats1 clk1 where
    l: "fromRecord_loop env flds 0 headers (e, [], clk) = Inr (e1, cats1, clk1)" and
    r: "fromRecord env headers flds (e, clk) = Inr (e1\<lparr>item_Category := strings_Join cats1 '',''\<rparr>, clk1)"
    using fromRecord_Inr by blast
  from loop_cats [OF l] have
    "cats1 = [field_or_empty flds k. k \<leftarrow> [0..<length headers],
                headers ! k = ''activity'' \<or> headers ! k = ''branch'']"
    by (simp cong: if_cong)
  then show ?thesis using r assms by simp
qed

lemma parseDate_clock:
  "snd (parseDate env c s) = c + (if parseDate_loop env s layouts = None then 1 else 0)"
  by (simp add: parseDate_def split: option.splits)

lemma step_clock:
  "fromRecord_step env flds k h (e, cats, clk) = Inr (e', cats', clk') \<Longrightarrow>
     clk' = clk + (if h = ''date'' \<and> parseDate_loop env (field_or_empty flds k) layouts = None
                   then 1 else 0)"
  by (auto simp: fromRecord_step_def get_total parseDate_def
      split: if_splits sum.splits prod.splits option.splits)

lemma loop_clock:
  "fromRecord_loop env flds i hs (e, cats, clk) = Inr (e', cats', clk') \<Longrightarrow>
     clk' = clk + length [k \<leftarrow> [0..<length hs]. hs ! k = ''date'' \<and>
                            parseDate_loop env (field_or_empty flds (i + k)) layouts = None]"
proof (induction hs arbitrary: i e cats clk)
  case Nil
  then show ?case by simp
next
  case (Cons h hs)
  obtain e1 cats1 clk1 where s: "fromRecord_step env flds i h (e, cats, clk) = Inr (e1, cats1, clk1)"
    using fromRecord_step_total [of env flds i h "(e, cats, clk)"] by auto
  from Cons.prems s have "fromRecord_loop env flds (Suc i) hs (e1, cats1, clk1) = Inr (e', cats', clk')"
    by simp
  from Cons.IH [OF this] have
    "clk' = clk1 + length [k \<leftarrow> [0..<length hs]. hs ! k = ''date'' \<and>
                            parseDate_loop env (field_or_empty flds (Suc i + k)) layouts = None]" .
  moreover have "[0..<length (h # hs)] = 0 # map Suc [0..<length hs]"
    by (simp add: upt_conv_Cons map_Suc_upt del: upt_Suc)
  ultimately show ?case
    using step_clock [OF s] by (simp add: filter_map comp_def del: upt_Suc)
qed

lemma loop_clock_no_date:
  assumes "''date'' \<notin> set hs"
    and "fromRecord_loop env flds i hs (e, cats, clk) = Inr (e', cats', clk')"
  shows "clk' = clk"
proof -
  from assms(1) have "[k \<leftarrow> [0..<length hs]. hs ! k = ''date'' \<and>
      parseDate_loop env (field_or_empty flds (i + k)) layouts = None] = []"
    by (auto simp: filter_empty_conv in_set_conv_nth)
  with loop_clock [OF assms(2)] show ?thesis by simp
qed

lemma loop_last_date_exact:
  assumes "headers = pre @ ''date'' # post" and "''date'' \<notin> set post"
    and "fromRecord_loop env flds 0 headers (e, cats, clk) = Inr (e', cats', clk')"
  shows "item_PubDate e' =
           time_Format env (fst (parseDate env (clk + date_fallbacks env flds pre)
             (field_or_empty flds (length pre)))) RFC1123Z \<and>
         clk' = snd (parseDate env (clk + date_fallbacks env flds pre)
             (field_or_empty flds (length pre)))"
proof -
  obtain e1 cats1 clk1 where l1: "fromRecord_loop env flds 0 pre (e, cats, clk) = Inr (e1, cats1, clk1)"
    using fromRecord_loop_total [of env flds 0 pre "(e, cats, clk)"] by auto
  from loop_clock [OF l1] have c1: "clk1 = clk + date_fallbacks env flds pre"
    by (simp add: date_fallbacks_def)
  obtain e2 cats2 clk2 where
    s: "fromRecord_step env flds (length pre) ''date'' (e1, cats1, clk1) = Inr (e2, cats2, clk2)"
    using fromRecord_step_total [of env flds "length pre" "''date''" "(e1, cats1, clk1)"] by auto
  from s have c2: "clk2 = snd (parseDate env clk1 (field_or_empty flds (length pre)))"
    by (auto simp: fromRecord_step_def get_total split: prod.splits)
  from assms(1,3) l1 s have
    l3: "fromRecord_loop env flds (Suc (length pre)) post (e2, cats2, clk2) = Inr (e', cats', clk')"
    by (simp add: fromRecord_loop_append)
  with assms(2) have "item_PubDate e' = item_PubDate e2"
    using loop_keeps [of "''date''" item_PubDate] by blast
  moreover from loop_clock_no_date [OF assms(2) l3] have "clk' = clk2" .
  ultimately show ?thesis
    using step_sets_date [OF s] c1 c2 by simp
qed

lemma fromRecord_last_date_exact:
  assumes "headers = pre @ ''date'' # post" and "''date'' \<notin> set post"
    and "fromRecord env headers flds (e, clk) = Inr (e', clk')"
  shows "item_PubDate e' =
           time_Format env (fst (parseDate env (clk + date_fallbacks env flds pre)
             (field_or_empty flds (length pre)))) RFC1123Z \<and>
         clk' = snd (parseDate env (clk + date_fallbacks env flds pre)
             (field_or_empty flds (length pre)))"
proof -
  obtain e1 cats1 clk1 where
    l: "fromRecord_loop env flds 0 headers (e, [], clk) = Inr (e1, cats1, clk1)" and
    r: "fromRecord env headers flds (e, clk) = Inr (e1\<lparr>item_Category := strings_Join cats1 '',''\<rparr>, clk1)"
    using fromRecord_Inr by blast
  from loop_last_date_exact [OF assms(1,2) l] r assms(3) show ?thesis by auto
qed

lemma fromRecord_no_date_clock:
  assumes "''date'' \<notin> set headers"
    and "fromRecord env headers flds (e, clk) = Inr (e', clk')"
  shows "clk' = clk"
proof -
  obtain e1 cats1 clk1 where
    l: "fromRecord_loop env flds 0 headers (e, [], clk) = Inr (e1, cats1, clk1)" and
    r: "fromRecord env headers flds (e, clk) = Inr (e1\<lparr>item_Category := strings_Join cats1 '',''\<rparr>, clk1)"
    using fromRecord_Inr by blast
  from loop_clock_no_date [OF assms(1) l] r assms(2) show ?thesis by simp
qed

lemma date_fallbacks_no_date:
  "''date'' \<notin> set pre \<Longrightarrow> date_fallbacks env flds pre = 0"
  by (auto simp: date_fallbacks_def filter_empty_conv in_set_conv_nth)

lemma fromRecord_single_date_now:
  assumes "headers = pre @ ''date'' # post" and "''date'' \<notin> set pre" and "''date'' \<notin> set post"
    and "\<forall>y \<in> set layouts. isl (time_Parse env y (field_or_empty flds (length pre)))"
    and "fromRecord env headers flds (e, clk) = Inr (e', clk')"
  shows "item_PubDate e' = time_Format env (Time_UTC (time_Now env clk)) RFC1123Z \<and> clk' = Suc clk"
proof -
  from parseDate_loop_none [OF assms(4)] have
    "parseDate env clk (field_or_empty flds (length pre)) = (Time_UTC (time_Now env clk), Suc clk)"
    by (simp add: parseDate_def)
  with fromRecord_last_date_exact [OF assms(1,3,5)] date_fallbacks_no_date [OF assms(2)]
  show ?thesis by simp
qed

text \<open>
  C4, as amended. \<^verbatim>\<open>fromRecord\<close> never fails, for any header row and any data row, also one
  shorter than the header row. On a fresh item:
  \<^item> title, link and description are the empty string when their column (\<^verbatim>\<open>description\<close>,
    \<^verbatim>\<open>article\<close>, \<^verbatim>\<open>detail\<close>) is absent, and otherwise the value of the last column of that
    name, which is the empty string when it lies past the end of the data row;
  \<^item> the publication date is the empty string when there is no \<^verbatim>\<open>date\<close> column, and the clock
    is not read. Otherwise it is the RFC1123Z rendering of what the date parser returns for
    the value of the last \<^verbatim>\<open>date\<close> column, read as the empty string past the end of the data
    row, the parser being called at the clock count that the call started with plus one for
    every earlier \<^verbatim>\<open>date\<close> column that no layout parses; the count the call ends with is the
    one this parse leaves. In particular, with a single \<^verbatim>\<open>date\<close> column whose value no
    layout parses, the publication date is the rendering of the reading of the clock taken
    by this call, in UTC, and the clock has been read once;
  \<^item> the category is the values of the \<^verbatim>\<open>activity\<close> and \<^verbatim>\<open>branch\<close> columns, in the order of
    the header row, joined by commas;
  \<^item> a column of any other name leaves the state of the loop as it is.
\<close>

theorem fromRecord_never_fails:
  "\<exists>e' clk'. fromRecord env headers flds (new_item, clk) = Inr (e', clk') \<and>
     (''description'' \<notin> set headers \<longrightarrow> item_Title e' = '''') \<and>
     (''article'' \<notin> set headers \<longrightarrow> item_Link e' = '''') \<and>
     (''detail'' \<notin> set headers \<longrightarrow> item_Description e' = '''') \<and>
     (''date'' \<notin> set headers \<longrightarrow> item_PubDate e' = '''' \<and> clk' = clk) \<and>
     (\<forall>pre post. headers = pre @ ''description'' # post \<and> ''description'' \<notin> set post \<longrightarrow>
        item_Title e' = field_or_empty flds (length pre)) \<and>
     (\<forall>pre post. headers = pre @ ''article'' # post \<and> ''article'' \<notin> set post \<longrightarrow>
        item_Link e' = field_or_empty flds (length pre)) \<and>
     (\<forall>pre post. headers = pre @ ''detail'' # post \<and> ''detail'' \<notin> set post \<longrightarrow>
        item_Description e' = field_or_empty flds (length pre)) \<and>
     (\<forall>pre post. headers = pre @ ''date'' # post \<and> ''date'' \<notin> set post \<longrightarrow>
        item_PubDate e' =
          time_Format env (fst (parseDate env (clk + date_fallbacks env flds pre)
            (field_or_empty flds (length pre)))) RFC1123Z \<and>
        clk' = snd (parseDate env (clk + date_fallbacks env flds pre)
            (field_or_empty flds (length pre)))) \<and>
     (\<forall>pre post. headers = pre @ ''date'' # post \<and> ''date'' \<notin> set pre \<and> ''date'' \<notin> set post \<and>
          (\<forall>y \<in> set layouts. isl (time_Parse env y (field_or_empty flds (length pre)))) \<longrightarrow>
        item_PubDate e' = time_Format env (Time_UTC (time_Now env clk)) RFC1123Z \<and>
        clk' = Suc clk) \<and>
     item_Category e' =
       strings_Join [field_or_empty flds k. k \<leftarrow> [0..<length headers],
                       headers ! k = ''activity'' \<or> headers ! k = ''branch''] '','' \<and>
     (\<forall>k. length flds \<le> k \<longrightarrow> field_or_empty flds k = '''') \<and>
     (\<forall>h i st. h \<notin> {''date'', ''description'', ''article'', ''activity'', ''branch'', ''detail''} \<longrightarrow>
        fromRecord_step env flds i h st = Inr st)"
proof -
  obtain e' clk' where r: "fromRecord env headers flds (new_item, clk) = Inr (e', clk')"
    using fromRecord_Inr [of env flds headers new_item clk] by blast
  have pc: "plain_column ''description'' item_Title" "plain_column ''article'' item_Link"
    "plain_column ''detail'' item_Description"
    by (simp_all add: plain_column_def)
  have a1: "''description'' \<notin> set headers \<longrightarrow> item_Title e' = ''''"
    using fromRecord_absent [OF _ _ r, of "''description''" item_Title] pc
    by (simp add: new_item_def)
  have a2: "''article'' \<notin> set headers \<longrightarrow> item_Link e' = ''''"
    using fromRecord_absent [OF _ _ r, of "''article''" item_Link] pc
    by (simp add: new_item_def)
  have a3: "''detail'' \<notin> set headers \<longrightarrow> item_Description e' = ''''"
    using fromRecord_absent [OF _ _ r, of "''detail''" item_Description] pc
    by (simp add: new_item_def)
  have a4: "''date'' \<notin> set headers \<longrightarrow> item_PubDate e' = '''' \<and> clk' = clk"
    using fromRecord_absent [OF _ _ r, of "''date''" item_PubDate]
      fromRecord_no_date_clock [OF _ r]
    by (simp add: new_item_def)
  have l1: "\<forall>pre post. headers = pre @ ''description'' # post \<and> ''description'' \<notin> set post \<longrightarrow>
        item_Title e' = field_or_empty flds (length pre)"
    using fromRecord_last_plain [OF pc(1) _ _ r] by blast
  have l2: "\<forall>pre post. headers = pre @ ''article'' # post \<and> ''article'' \<notin> set post \<longrightarrow>
        item_Link e' = field_or_empty flds (length pre)"
    using fromRecord_last_plain [OF pc(2) _ _ r] by blast
  have l3: "\<forall>pre post. headers = pre @ ''detail'' # post \<and> ''detail'' \<notin> set post \<longrightarrow>
        item_Description e' = field_or_empty flds (length pre)"
    using fromRecord_last_plain [OF pc(3) _ _ r] by blast
  have l4: "\<forall>pre post. headers = pre @ ''date'' # post \<and> ''date'' \<notin> set post \<longrightarrow>
        item_PubDate e' =
          time_Format env (fst (parseDate env (clk + date_fallbacks env flds pre)
            (field_or_empty flds (length pre)))) RFC1123Z \<and>
        clk' = snd (parseDate env (clk + date_fallbacks env flds pre)
            (field_or_empty flds (length pre)))"
    using fromRecord_last_date_exact [OF _ _ r] by blast
  have l5: "\<forall>pre post. headers = pre @ ''date'' # post \<and> ''date'' \<notin> set pre \<and> ''date'' \<notin> set post \<and>
          (\<forall>y \<in> set layouts. isl (time_Parse env y (field_or_empty flds (length pre)))) \<longrightarrow>
        item_PubDate e' = time_Format env (Time_UTC (time_Now env clk)) RFC1123Z \<and>
        clk' = Suc clk"
    using fromRecord_single_date_now [OF _ _ _ _ r] by blast
  have c: "item_Category e' =
       strings_Join [field_or_empty flds k. k \<leftarrow> [0..<length headers],
                       headers ! k = ''activity'' \<or> headers ! k = ''branch''] '',''"
    using fromRecord_Category [OF r] .
  have f: "\<forall>k. length flds \<le> k \<longrightarrow> field_or_empty flds k = ''''"
    by (simp add: field_or_empty_def)
  have u: "\<forall>h i st. h \<notin> {''date'', ''description'', ''article'', ''activity'', ''branch'', ''detail''} \<longrightarrow>
        fromRecord_step env flds i h st = Inr st"
    by (intro allI impI) (rule step_unknown)
  show ?thesis
    by (rule exI [of _ e'], rule exI [of _ clk'], intro conjI)
      (fact r a1 a2 a3 a4 l1 l2 l3 l4 l5 c f u)+
qed

theorem fromRecord_never_fails_witness:
  "''article'' \<notin> set [''description'', ''date'', ''foo''] \<and>
   [''description'', ''date'', ''foo''] = [] @ ''description'' # [''date'', ''foo''] \<and>
   ''description'' \<notin> set [''date'', ''foo''] \<and>
   [''description'', ''date'', ''foo''] = [''description''] @ ''date'' # [''foo''] \<and>
   ''date'' \<notin> set [''description''] \<and> ''date'' \<notin> set [''foo''] \<and>
   list_all (\<lambda>y. isl (time_Parse example_env y (field_or_empty [''T''] (length [''description'']))))
     layouts \<and>
   (\<exists>e' clk'. fromRecord example_env [''description'', ''date'', ''foo''] [''T''] (new_item, 5)
        = Inr (e', clk') \<and>
      item_Link e' = '''' \<and> item_Title e' = ''T'' \<and> item_Category e' = '''' \<and>
      item_PubDate e' = ''Fri, 20 Jan 2017 17:00:05 +0000'' \<and> clk' = 6)"
proof -
  let ?h = "[''description'', ''date'', ''foo'']"
  from fromRecord_never_fails [of example_env ?h "[''T'']" 5] obtain e' clk' where
    r: "fromRecord example_env ?h [''T''] (new_item, 5) = Inr (e', clk')" and
    a: "''article'' \<notin> set ?h \<longrightarrow> item_Link e' = ''''" and
    l: "\<forall>pre post. ?h = pre @ ''description'' # post \<and> ''description'' \<notin> set post \<longrightarrow>
          item_Title e' = field_or_empty [''T''] (length pre)" and
    d: "\<forall>pre post. ?h = pre @ ''date'' # post \<and> ''date'' \<notin> set pre \<and> ''date'' \<notin> set post \<and>
          (\<forall>y \<in> set layouts. isl (time_Parse example_env y (field_or_empty [''T''] (length pre)))) \<longrightarrow>
        item_PubDate e' = time_Format example_env (Time_UTC (time_Now example_env 5)) RFC1123Z \<and>
        clk' = Suc 5" and
    c: "item_Category e' =
          strings_Join [field_or_empty [''T''] k. k \<leftarrow> [0..<length ?h],
                          ?h ! k = ''activity'' \<or> ?h ! k = ''branch''] '',''"
    by (elim exE conjE)
  have 1: "item_Link e' = ''''"
    using a by simp
  have 2: "item_Title e' = ''T''"
    using l [rule_format, of "[]" "[''date'', ''foo'']"] by (simp add: field_or_empty_def)
  have "[0..<length ?h] = [0, 1, 2]"
    by (simp add: upt_rec)
  with c have 3: "item_Category e' = ''''"
    by simp
  have p: "list_all (\<lambda>y. isl (time_Parse example_env y (field_or_empty [''T''] (length [''description'']))))
     layouts"
    by code_simp
  have n: "time_Format example_env (Time_UTC (time_Now example_env 5)) RFC1123Z
      = ''Fri, 20 Jan 2017 17:00:05 +0000''"
    by code_simp
  from p have p': "\<forall>y \<in> set layouts. isl (time_Parse example_env y (field_or_empty [''T''] (length [''description''])))"
    by (simp add: list_all_iff)
  from d [rule_format, of "[''description'']" "[''foo'']"] p' n
  have 4: "item_PubDate e' = ''Fri, 20 Jan 2017 17:00:05 +0000'' \<and> clk' = 6"
    by simp
  from r 1 2 3 4 p show ?thesis
    by auto
qed

text \<open>
  The claim C4 as stated also says that a field whose value lies past the end of the data row
  is the empty string. For the publication date this fails: with a \<^verbatim>\<open>date\<close> column and an
  empty data row the date parser is given the empty string, falls back to the clock, and
  \<^verbatim>\<open>PubDate\<close> is the rendering of that reading.
\<close>

theorem fromRecord_short_row_PubDate:
  "fromRecord example_env [''date''] [] (new_item, 0) =
     Inr (new_item\<lparr>item_PubDate := ''Fri, 20 Jan 2017 17:00:00 +0000''\<rparr>, 1)"
  by code_simp

section \<open>Feed Builder: fewer than two rows\<close>

lemma fromCSV_no_records:
  "csv_ReadAll r = Inr records \<Longrightarrow> length records \<le> 1 \<Longrightarrow>
     fromCSV env r maxRecords (rs, clk) = (Some (ErrorsNew ''no records''), rs, clk)"
  by (simp add: fromCSV_def)

lemma csv_ReadAll_short:
  "length rows \<le> 1 \<Longrightarrow> csv_ReadAll (map Inr rows) = Inr rows"
  by (cases rows) (simp_all add: csv_ReadAll_def csv_Read_def)

text \<open>
  C3. For every CSV input of at most one row (none, or only a header) \<^verbatim>\<open>fromCSV\<close> returns the
  error \<^verbatim>\<open>errors.New("no records")\<close>, the EmptyInput of the specification, and leaves the feed
  document it was called on as it was: neither version nor channel is set.
\<close>

theorem fromCSV_EmptyInput:
  assumes "length rows \<le> 1"
  shows "fromCSV env (map Inr rows) maxRecords (rs, clk) = (Some (ErrorsNew ''no records''), rs, clk)"
  using assms by (simp add: fromCSV_no_records [OF csv_ReadAll_short])

theorem fromCSV_EmptyInput_witness:
  "length [example_header] \<le> 1 \<and>
   fromCSV example_env (map Inr [example_header]) 20 (new_rss, 0)
     = (Some (ErrorsNew ''no records''), new_rss, 0)"
  using fromCSV_EmptyInput [of "[example_header]" example_env 20 new_rss 0] by simp

section \<open>HTTP Server\<close>



section \<open>CSV reader: the number of fields\<close>

lemma csv_ReadAll_loop_uniform:
  assumes "csv_ReadAll_loop n raw acc = Inr records" and "0 < n"
  shows "records = acc @ map projr raw \<and> (\<forall>x \<in> set raw. \<exists>r. x = Inr r \<and> int (length r) = n)"
  using assms
proof (induction raw arbitrary: acc)
  case Nil
  then show ?case by simp
next
  case (Cons x raw)
  show ?case
  proof (cases x)
    case (Inl err)
    with Cons.prems show ?thesis by (simp add: csv_Read_def)
  next
    case (Inr r)
    with Cons.prems have len: "int (length r) = n"
      by (simp add: csv_Read_def split: if_splits)
    with Cons.prems Inr have "csv_ReadAll_loop n raw (acc @ [r]) = Inr records"
      by (simp add: csv_Read_def)
    from Cons.IH [OF this Cons.prems(2)] Inr len show ?thesis by simp
  qed
qed

lemma csv_ReadAll_uniform:
  assumes "csv_ReadAll (Inr h # raw) = Inr records" and "h \<noteq> []"
  shows "records = h # map projr raw \<and> (\<forall>x \<in> set raw. \<exists>r. x = Inr r \<and> length r = length h)"
proof -
  from assms have "csv_ReadAll_loop (int (length h)) raw [h] = Inr records"
    by (simp add: csv_ReadAll_def csv_Read_def)
  from csv_ReadAll_loop_uniform [OF this] assms(2) show ?thesis by simp
qed

lemma csv_ReadAll_loop_error:
  assumes "csv_ReadAll_loop n raw acc = Inl err"
  shows "err = CsvErrFieldCount \<or> Inl err \<in> set raw"
  using assms
proof (induction raw arbitrary: n acc)
  case Nil
  then show ?case by simp
next
  case (Cons x raw)
  show ?case
  proof (cases "csv_Read n x")
    case (Pair res n')
    show ?thesis
    proof (cases res)
      case (Inl e)
      with Pair Cons.prems have "e = err" by simp
      with Pair Inl have "err = CsvErrFieldCount \<or> x = Inl err"
        by (auto simp: csv_Read_def split: sum.splits if_splits)
      then show ?thesis by auto
    next
      case (Inr r)
      with Pair Cons.prems have "csv_ReadAll_loop n' raw (acc @ [r]) = Inl err" by simp
      from Cons.IH [OF this] show ?thesis by auto
    qed
  qed
qed

lemma fromCSV_ReadAll_error:
  "csv_ReadAll r = Inl err \<Longrightarrow> fromCSV env r maxRecords (rs, clk) = (Some err, rs, clk)"
  by (simp add: fromCSV_def)

text \<open>
  C10. Let the first record of the input be a header of at least one field (the record lexer
  never yields a record without fields). If some later record has another number of fields,
  \<^verbatim>\<open>fromCSV\<close> returns an error of the CSV parser (\<^verbatim>\<open>csv.ErrFieldCount\<close>, or the lexing error
  of an earlier record) and leaves the feed document as it was. Whenever the parser accepts
  the input, every record it returns has exactly as many fields as the header; these records
  and this header are all that \<^verbatim>\<open>fromCSV\<close> passes to \<^verbatim>\<open>fromRecord\<close>, so no data row shorter than
  the header row reaches the mapper on this path.
\<close>

theorem fromCSV_ragged_rows:
  "(\<forall>h raw. r = Inr h # raw \<and> h \<noteq> [] \<and> (\<exists>row. Inr row \<in> set raw \<and> length row \<noteq> length h) \<longrightarrow>
      (\<exists>err. csv_ReadAll r = Inl err \<and> (err = CsvErrFieldCount \<or> Inl err \<in> set r) \<and>
         fromCSV env r maxRecords (rs, clk) = (Some err, rs, clk))) \<and>
   (\<forall>h raw records. r = Inr h # raw \<and> h \<noteq> [] \<and> csv_ReadAll r = Inr records \<longrightarrow>
      records ! 0 = h \<and> (\<forall>row \<in> set records. length row = length h))"
proof (intro conjI allI impI)
  fix h raw
  assume a: "r = Inr h # raw \<and> h \<noteq> [] \<and> (\<exists>row. Inr row \<in> set raw \<and> length row \<noteq> length h)"
  show "\<exists>err. csv_ReadAll r = Inl err \<and> (err = CsvErrFieldCount \<or> Inl err \<in> set r) \<and>
         fromCSV env r maxRecords (rs, clk) = (Some err, rs, clk)"
  proof (cases "csv_ReadAll r")
    case (Inl err)
    then have "csv_ReadAll_loop 0 r [] = Inl err" by (simp add: csv_ReadAll_def)
    from csv_ReadAll_loop_error [OF this] Inl fromCSV_ReadAll_error [OF Inl] show ?thesis
      by simp
  next
    case (Inr records)
    with a have x: "csv_ReadAll (Inr h # raw) = Inr records" "h \<noteq> []"
      by auto
    from csv_ReadAll_uniform [OF x] a have False by fastforce
    then show ?thesis ..
  qed
next
  fix h raw records
  assume a: "r = Inr h # raw \<and> h \<noteq> [] \<and> csv_ReadAll r = Inr records"
  then have x: "csv_ReadAll (Inr h # raw) = Inr records" "h \<noteq> []"
    by auto
  from csv_ReadAll_uniform [OF x]
  have u: "records = h # map projr raw" "\<forall>x \<in> set raw. \<exists>row. x = Inr row \<and> length row = length h"
    by simp_all
  from u(1) show "records ! 0 = h" by simp
  from u show "\<forall>row \<in> set records. length row = length h" by auto
qed

theorem fromCSV_ragged_rows_witness:
  "Inr [''c''] \<in> set [Inr [''c'']] \<and> length [''c''] \<noteq> length [''a'', ''b''] \<and>
   fromCSV example_env [Inr [''a'', ''b''], Inr [''c'']] 20 (new_rss, 0)
     = (Some CsvErrFieldCount, new_rss, 0) \<and>
   csv_ReadAll example_csv = Inr [example_header, example_row1, example_row2] \<and>
   list_all (\<lambda>row. length row = 6) [example_header, example_row1, example_row2]"
proof -
  let ?r = "[Inr [''a'', ''b''], Inr [''c'']] :: reader"
  have h: "?r = Inr [''a'', ''b''] # [Inr [''c'']] \<and> [''a'', ''b''] \<noteq> [] \<and>
      (\<exists>row. Inr row \<in> set [Inr [''c'']] \<and> length row \<noteq> length [''a'', ''b''])"
    by simp
  from fromCSV_ragged_rows [of ?r example_env 20 new_rss 0, THEN conjunct1, rule_format, OF h]
  obtain err where e: "err = CsvErrFieldCount \<or> Inl err \<in> set ?r"
    and f: "fromCSV example_env ?r 20 (new_rss, 0) = (Some err, new_rss, 0)"
    by blast
  from e have "err = CsvErrFieldCount" by auto
  with f have 1: "fromCSV example_env ?r 20 (new_rss, 0) = (Some CsvErrFieldCount, new_rss, 0)"
    by simp
  have 2: "csv_ReadAll example_csv = Inr [example_header, example_row1, example_row2]"
    by (simp add: csv_ReadAll_def csv_Read_def example_csv_def example_header_def
        example_row1_def example_row2_def)
  have 3: "list_all (\<lambda>row. length row = 6) [example_header, example_row1, example_row2]"
    by (simp add: example_header_def example_row1_def example_row2_def)
  from 1 2 3 show ?thesis by simp
qed

section \<open>Feed Builder: the selected rows\<close>

lemma fromRecord_Inr_ex:
  "\<exists>e' clk'. fromRecord env headers flds (e, clk) = Inr (e', clk')"
  using fromRecord_Inr [of env flds headers e clk] by blast

lemma fromCSV_loop_rows:
  assumes "0 \<le> start" and "i < int (length records)"
  shows "\<exists>out' clk'. fromCSV_loop env headers records start i out clk = Inr (out', clk') \<and>
     length out' = length out + nat (i - start) \<and> take (length out) out' = out \<and>
     (\<forall>k < nat (i - start). \<exists>c c'.
        fromRecord env headers (records ! nat (i - int k)) (new_item, c)
          = Inr (out' ! (length out + k), c'))"
  using assms
proof (induction env headers records start i out clk rule: fromCSV_loop.induct)
  case (1 env headers records start i out clk)
  show ?case
  proof (cases "i > start")
    case False
    then show ?thesis by (simp add: fromCSV_loop.simps [of env headers records start i])
  next
    case True
    with "1.prems" have ix: "index records i = Inr (records ! nat i)"
      by (simp add: index_def)
    obtain e clk1 where fr: "fromRecord env headers (records ! nat i) (new_item, clk) = Inr (e, clk1)"
      using fromRecord_Inr_ex by blast
    from "1.IH" [OF True ix fr refl "1.prems"(1)] "1.prems"(2)
    obtain out' clk' where
      l: "fromCSV_loop env headers records start (i - 1) (out @ [e]) clk1 = Inr (out', clk')" and
      n: "length out' = length (out @ [e]) + nat (i - 1 - start)" and
      t: "take (length (out @ [e])) out' = out @ [e]" and
      r: "\<forall>k < nat (i - 1 - start). \<exists>c c'.
            fromRecord env headers (records ! nat (i - 1 - int k)) (new_item, c)
              = Inr (out' ! (length (out @ [e]) + k), c')"
      by auto
    from True ix fr l have
      res: "fromCSV_loop env headers records start i out clk = Inr (out', clk')"
      by (simp add: fromCSV_loop.simps [of env headers records start i])
    from n True have n': "length out' = length out + nat (i - start)"
      by simp
    from t have t': "take (length out) out' = out"
      by (metis append_eq_conv_conj length_append take_take min.cobounded1 min_def
          le_add1 take_append take_all_iff order_refl append_Nil2 diff_is_0_eq' take_0)
    from t n have e0: "out' ! length out = e"
      by (metis length_append_singleton lessI nth_append_length nth_take)
    have rows: "\<forall>k < nat (i - start). \<exists>c c'.
        fromRecord env headers (records ! nat (i - int k)) (new_item, c)
          = Inr (out' ! (length out + k), c')"
    proof (intro allI impI)
      fix k
      assume k: "k < nat (i - start)"
      show "\<exists>c c'. fromRecord env headers (records ! nat (i - int k)) (new_item, c)
          = Inr (out' ! (length out + k), c')"
      proof (cases k)
        case 0
        with fr e0 show ?thesis by auto
      next
        case (Suc j)
        with k have "j < nat (i - 1 - start)" by simp
        with r obtain c c' where
          f: "fromRecord env headers (records ! nat (i - 1 - int j)) (new_item, c)
              = Inr (out' ! (length (out @ [e]) + j), c')"
          by blast
        have eq1: "i - 1 - int j = i - int k" using Suc by simp
        have eq2: "length (out @ [e]) + j = length out + k" using Suc by simp
        from f [unfolded eq1 eq2] show ?thesis by blast
      qed
    qed
    from res n' t' rows show ?thesis by blast
  qed
qed

lemma int64_id:
  "- (2 ^ 63) \<le> k \<Longrightarrow> k < 2 ^ 63 \<Longrightarrow> int64 k = k"
  by (simp add: int64_def signed_take_bit_int_eq_self)

text \<open>
  C1. What the code does, for every input of at least two records that the parser accepts and
  every maximum \<open>N\<close> from 0 up to the largest \<^verbatim>\<open>int\<close>: \<^verbatim>\<open>fromCSV\<close> succeeds and the feed has
  \<open>max 0 (min N (rowCount - 1) - 1)\<close> entries, entry \<open>k\<close> being the mapping of the record of index
  \<open>rowCount - 1 - k\<close>: newest first, as the claim says, but for \<open>N \<ge> 1\<close> one entry fewer than
  the \<open>min N (rowCount - 1)\<close> of the claim. The loop runs while \<^verbatim>\<open>i > start\<close>, so the record of
  index \<^verbatim>\<open>start\<close>, the oldest of the selected ones, is never converted, although the slice was
  allocated with capacity \<^verbatim>\<open>len(records)-start\<close>.
\<close>

theorem fromCSV_entry_count:
  assumes "csv_ReadAll r = Inr records" and "2 \<le> length records"
    and "int (length records) < 2 ^ 63" and "0 \<le> N" and "N < 2 ^ 63"
  shows "\<exists>rs' clk'. fromCSV env r N (rs, clk) = (None, rs', clk') \<and>
     Version rs' = ''2.0'' \<and>
     int (length (items_of rs')) = max 0 (min N (int (length records) - 1) - 1) \<and>
     (\<forall>k < length (items_of rs'). \<exists>c c'.
        fromRecord env (records ! 0) (records ! (length records - 1 - k)) (new_item, c)
          = Inr (items_of rs' ! k, c'))"
proof -
  define start where "start = (if int (length records) - N \<le> 0 then 1 else int (length records) - N)"
  have s64: "int64 (int (length records) - N) = int (length records) - N"
    using assms(3,4,5) by (intro int64_id) auto
  have s1: "1 \<le> start" "start \<le> int (length records)"
    using assms(2,4) by (auto simp: start_def)
  have ix: "index records 0 = Inr (records ! 0)"
    using assms(2) by (cases records) (simp_all add: index_def)
  from fromCSV_loop_rows [of start "int (length records) - 1" records env "records ! 0" "[]" clk] s1
  obtain out clk' where
    l: "fromCSV_loop env (records ! 0) records start (int (length records) - 1) [] clk = Inr (out, clk')" and
    n: "length out = nat (int (length records) - 1 - start)" and
    rows: "\<forall>k < nat (int (length records) - 1 - start). \<exists>c c'.
        fromRecord env (records ! 0) (records ! nat (int (length records) - 1 - int k)) (new_item, c)
          = Inr (out ! k, c')"
    by auto
  define rs' where "rs' = rs\<lparr>Version := ''2.0'',
      Channel := Some \<lparr>channel_Title = Title, channel_Link = URL,
        channel_Description = Desc, channel_Items = out\<rparr>\<rparr>"
  have res: "fromCSV env r N (rs, clk) = (None, rs', clk')"
    using assms(1,2) ix s64 s1 l by (auto simp: fromCSV_def Let_def start_def rs'_def)
  have it: "items_of rs' = out"
    by (simp add: items_of_def rs'_def)
  have cnt: "int (length (items_of rs')) = max 0 (min N (int (length records) - 1) - 1)"
    using n assms(2,4) by (auto simp: it start_def split: if_splits)
  have ord: "\<forall>k < length (items_of rs'). \<exists>c c'.
        fromRecord env (records ! 0) (records ! (length records - 1 - k)) (new_item, c)
          = Inr (items_of rs' ! k, c')"
  proof (intro allI impI)
    fix k
    assume k: "k < length (items_of rs')"
    with it n have k': "k < nat (int (length records) - 1 - start)" by simp
    with s1 have "nat (int (length records) - 1 - int k) = length records - 1 - k" by simp
    with rows k' it show "\<exists>c c'.
        fromRecord env (records ! 0) (records ! (length records - 1 - k)) (new_item, c)
          = Inr (items_of rs' ! k, c')"
      by metis
  qed
  have v: "Version rs' = ''2.0''" by (simp add: rs'_def)
  from res v cnt ord show ?thesis by blast
qed

theorem fromCSV_entry_count_witness:
  "csv_ReadAll example_csv = Inr [example_header, example_row1, example_row2] \<and>
   2 \<le> length [example_header, example_row1, example_row2] \<and>
   min 20 (int (length [example_header, example_row1, example_row2]) - 1) = 2 \<and>
   (\<exists>rs' clk'. fromCSV example_env example_csv 20 (new_rss, 0) = (None, rs', clk') \<and>
      length (items_of rs') = 1)"
proof -
  let ?recs = "[example_header, example_row1, example_row2]"
  have 1: "csv_ReadAll example_csv = Inr ?recs"
    by (simp add: csv_ReadAll_def csv_Read_def example_csv_def example_header_def
        example_row1_def example_row2_def)
  have 2: "2 \<le> length ?recs" "int (length ?recs) < 2 ^ 63" "(0::int) \<le> 20" "(20::int) < 2 ^ 63"
    by simp_all
  from fromCSV_entry_count [OF 1 2, of example_env new_rss 0]
  obtain rs' clk' where "fromCSV example_env example_csv 20 (new_rss, 0) = (None, rs', clk')"
    and "int (length (items_of rs')) = max 0 (min 20 (int (length ?recs) - 1) - 1)"
    by blast
  then have "fromCSV example_env example_csv 20 (new_rss, 0) = (None, rs', clk') \<and>
      length (items_of rs') = 1"
    by simp
  with 1 show ?thesis by auto
qed

lemma fromCSV_example_eval:
  "fromCSV env example_csv 20 (new_rss, clk) =
     (None,
      \<lparr>Version = ''2.0'',
       Channel = Some \<lparr>channel_Title = ''Federal Government 2017'',
         channel_Link = ''http://jlord.us/federal-gov/'',
         channel_Description = ''Summaries of events from the US Government.'',
         channel_Items =
           [\<lparr>item_Title = ''Vote held'', item_Link = ''http://x/2'',
             item_Description = ''Another detail'',
             item_PubDate = time_Format env (fst (parseDate env clk ''1/5/2017'')) RFC1123Z,
             item_Category = ''vote,legislative''\<rparr>]\<rparr>\<rparr>,
      snd (parseDate env clk ''1/5/2017''))"
proof -
  have rd: "csv_ReadAll example_csv = Inr [example_header, example_row1, example_row2]"
    by (simp add: csv_ReadAll_def csv_Read_def example_csv_def example_header_def
        example_row1_def example_row2_def)
  have fr: "fromRecord env example_header example_row2 (new_item, clk) =
      Inr (\<lparr>item_Title = ''Vote held'', item_Link = ''http://x/2'',
             item_Description = ''Another detail'',
             item_PubDate = time_Format env (fst (parseDate env clk ''1/5/2017'')) RFC1123Z,
             item_Category = ''vote,legislative''\<rparr>, snd (parseDate env clk ''1/5/2017''))"
    by (simp add: fromRecord_def fromRecord_step_def get_def index_def example_header_def
        example_row2_def new_item_def case_prod_beta)
  have lp: "fromCSV_loop env example_header [example_header, example_row1, example_row2] 1 2 [] clk =
      Inr ([\<lparr>item_Title = ''Vote held'', item_Link = ''http://x/2'',
             item_Description = ''Another detail'',
             item_PubDate = time_Format env (fst (parseDate env clk ''1/5/2017'')) RFC1123Z,
             item_Category = ''vote,legislative''\<rparr>], snd (parseDate env clk ''1/5/2017''))"
    by (simp add: fromCSV_loop.simps [of _ _ _ 1 2] fromCSV_loop.simps [of _ _ _ 1 1]
        index_def fr)
  show ?thesis
    by (simp add: fromCSV_def rd index_def int64_def fr lp new_rss_def Title_def URL_def Desc_def)
qed

text \<open>
  C2. On the sheet of the end-to-end scenario (the header and the two data rows of
  \<open>example_csv\<close>) with \<open>N = 20\<close>, in every environment, the feed that \<^verbatim>\<open>fromCSV\<close> builds has one
  item, not the two of the claim: the item of the row \<^verbatim>\<open>Vote held\<close>. The row \<^verbatim>\<open>Bill signed\<close>,
  of index 1, is not converted.
\<close>

theorem fromCSV_example_sheet:
  "fromCSV env example_csv 20 (new_rss, clk) =
     (None,
      \<lparr>Version = ''2.0'',
       Channel = Some \<lparr>channel_Title = ''Federal Government 2017'',
         channel_Link = ''http://jlord.us/federal-gov/'',
         channel_Description = ''Summaries of events from the US Government.'',
         channel_Items =
           [\<lparr>item_Title = ''Vote held'', item_Link = ''http://x/2'',
             item_Description = ''Another detail'',
             item_PubDate = time_Format env (fst (parseDate env clk ''1/5/2017'')) RFC1123Z,
             item_Category = ''vote,legislative''\<rparr>]\<rparr>\<rparr>,
      snd (parseDate env clk ''1/5/2017''))"
  by (rule fromCSV_example_eval)

section \<open>Cache: refresh\<close>

lemma refresh_trace_Inr:
  assumes "refresh_trace env (s, clk) = Inr (tr, clk')"
  shows "\<exists>r feed content.
     sheet2rss_get env s = (r, None) \<and>
     fromCSV env r NumEntries (new_rss, clk) = (None, feed, clk') \<and>
     xml_Marshal env feed = Inr content \<and>
     tr = [s\<lparr>digest := Sprintf_space_x (sha1_Sum env content)\<rparr>,
           s\<lparr>digest := Sprintf_space_x (sha1_Sum env content), cached := content\<rparr>,
           s\<lparr>digest := Sprintf_space_x (sha1_Sum env content), cached := content, ready := True\<rparr>]"
  using assms
  by (auto simp: refresh_trace_def Let_def split: prod.splits option.splits sum.splits)

lemma hexdigit_not_space: "hexdigit n \<noteq> CHR '' ''"
proof -
  have "hexdigit n \<in> set ''0123456789abcdef''"
    unfolding hexdigit_def by (rule nth_mem) simp
  then show ?thesis by auto
qed

lemma filter_hexbyte: "filter (\<lambda>c. c \<noteq> CHR '' '') (hexbyte b) = hexbyte b"
  by (simp add: hexbyte_def hexdigit_not_space)

lemma Sprintf_space_x_filter:
  "filter (\<lambda>c. c \<noteq> CHR '' '') (Sprintf_space_x h) = hex_EncodeToString h"
  by (induction h rule: Sprintf_space_x.induct)
    (simp_all add: hex_EncodeToString_def filter_hexbyte)

lemma Sprintf_space_x_length:
  "length (Sprintf_space_x h) = 3 * length h - 1"
  by (induction h rule: Sprintf_space_x.induct) (simp_all add: hexbyte_def)

lemma hex_EncodeToString_length:
  "length (hex_EncodeToString h) = 2 * length h"
  by (induction h) (simp_all add: hex_EncodeToString_def hexbyte_def)

text \<open>
  C9, as amended. After every refresh that does not end the process the cache is ready, the
  cached bytes are what the serializer returned for the feed built from the fetched sheet, and
  the stored digest is the hash of exactly these cached bytes as the format \<^verbatim>\<open>% x\<close> renders it:
  two lower-case hexadecimal digits per byte and one space between consecutive bytes. Without
  its spaces the digest is the contiguous hexadecimal encoding of the hash; with them it has
  \<open>3 * n - 1\<close> characters for a hash of \<open>n\<close> bytes.
\<close>

theorem refresh_digest:
  "refresh env (s, clk) = Inr (s', clk') \<longrightarrow>
     ready s' \<and>
     (\<exists>r feed. sheet2rss_get env s = (r, None) \<and>
        fromCSV env r NumEntries (new_rss, clk) = (None, feed, clk') \<and>
        xml_Marshal env feed = Inr (cached s')) \<and>
     digest s' = Sprintf_space_x (sha1_Sum env (cached s')) \<and>
     filter (\<lambda>c. c \<noteq> CHR '' '') (digest s') = hex_EncodeToString (sha1_Sum env (cached s')) \<and>
     length (digest s') = 3 * length (sha1_Sum env (cached s')) - 1"
proof
  assume a: "refresh env (s, clk) = Inr (s', clk')"
  then obtain tr where t: "refresh_trace env (s, clk) = Inr (tr, clk')" and l: "s' = last tr"
    by (auto simp: refresh_def split: sum.splits prod.splits)
  from refresh_trace_Inr [OF t] obtain r feed content where
    g: "sheet2rss_get env s = (r, None)" and
    f: "fromCSV env r NumEntries (new_rss, clk) = (None, feed, clk')" and
    m: "xml_Marshal env feed = Inr content" and
    tr: "tr = [s\<lparr>digest := Sprintf_space_x (sha1_Sum env content)\<rparr>,
           s\<lparr>digest := Sprintf_space_x (sha1_Sum env content), cached := content\<rparr>,
           s\<lparr>digest := Sprintf_space_x (sha1_Sum env content), cached := content, ready := True\<rparr>]"
    by blast
  from l tr have c: "cached s' = content" and d: "digest s' = Sprintf_space_x (sha1_Sum env content)"
    and rd: "ready s'"
    by simp_all
  from g f m c have 1: "\<exists>r feed. sheet2rss_get env s = (r, None) \<and>
        fromCSV env r NumEntries (new_rss, clk) = (None, feed, clk') \<and>
        xml_Marshal env feed = Inr (cached s')"
    by blast
  from c d have 2: "digest s' = Sprintf_space_x (sha1_Sum env (cached s'))" by simp
  from rd 1 2 show "ready s' \<and>
     (\<exists>r feed. sheet2rss_get env s = (r, None) \<and>
        fromCSV env r NumEntries (new_rss, clk) = (None, feed, clk') \<and>
        xml_Marshal env feed = Inr (cached s')) \<and>
     digest s' = Sprintf_space_x (sha1_Sum env (cached s')) \<and>
     filter (\<lambda>c. c \<noteq> CHR '' '') (digest s') = hex_EncodeToString (sha1_Sum env (cached s')) \<and>
     length (digest s') = 3 * length (sha1_Sum env (cached s')) - 1"
    by (simp add: Sprintf_space_x_filter Sprintf_space_x_length)
qed

lemma length_bytes_be: "length (bytes_be n v) = n"
  by (induction n arbitrary: v) simp_all

lemma length_SHA1: "length (SHA1 m) = 20"
  by (simp add: SHA1_def Let_def length_bytes_be split: prod.splits)

lemma example_content:
  "refresh example_env (main_handler ''KEY'', 0) = Inr (example_cache, 0)"
proof -
  have p: "parseDate example_env 0 ''1/5/2017'' = (\<lparr>instant = 1483574400000000000, loc = UTC\<rparr>, 0)"
    by code_simp
  have f: "time_Format example_env \<lparr>instant = 1483574400000000000, loc = UTC\<rparr> RFC1123Z
      = ''Thu, 05 Jan 2017 00:00:00 +0000''"
    by code_simp
  have m: "xml_Marshal example_env
     \<lparr>Version = ''2.0'',
       Channel = Some \<lparr>channel_Title = ''Federal Government 2017'',
         channel_Link = ''http://jlord.us/federal-gov/'',
         channel_Description = ''Summaries of events from the US Government.'',
         channel_Items =
           [\<lparr>item_Title = ''Vote held'', item_Link = ''http://x/2'',
             item_Description = ''Another detail'',
             item_PubDate = ''Thu, 05 Jan 2017 00:00:00 +0000'',
             item_Category = ''vote,legislative''\<rparr>]\<rparr>\<rparr>
     = Inr example_xml"
    by code_simp
  have g: "\<And>h. sheet2rss_get example_env h = (example_csv, None)"
    by (simp add: sheet2rss_get_def example_env_def)
  have s: "sha1_Sum example_env = SHA1"
    by (simp add: example_env_def)
  show ?thesis
    by (simp add: refresh_def refresh_trace_def g NumEntries_def fromCSV_example_eval p f m s
        main_handler_def example_cache_def Let_def)
qed

theorem refresh_digest_witness:
  "(\<exists>s' clk'. refresh example_env (main_handler ''KEY'', 0) = Inr (s', clk') \<and> ready s' \<and>
      digest s' = Sprintf_space_x (sha1_Sum example_env (cached s')) \<and>
      length (digest s') = 59)"
proof -
  from example_content obtain s' clk' where
    r: "refresh example_env (main_handler ''KEY'', 0) = Inr (s', clk')"
    by blast
  note x = refresh_digest [of example_env "main_handler ''KEY''" 0 s' clk', THEN mp, OF r]
  from x have rd: "ready s'"
    by (rule conjunct1)
  from x have d: "digest s' = Sprintf_space_x (sha1_Sum example_env (cached s'))"
    by blast
  from x have "length (digest s') = 3 * length (sha1_Sum example_env (cached s')) - 1"
    by blast
  moreover have "length (sha1_Sum example_env (cached s')) = 20"
    by (simp add: example_env_def length_SHA1)
  ultimately have ln: "length (digest s') = 59"
    by simp
  from r rd d ln show ?thesis
    by blast
qed

text \<open>
  The claim C9 as stated makes the digest the hex-encoded hash. After the refresh of the
  example the digest is not the contiguous hexadecimal string of the hash of the cached bytes:
  it has 59 characters, the other 40.
\<close>

theorem refresh_digest_not_plain_hex:
  "refresh example_env (main_handler ''KEY'', 0) = Inr (example_cache, 0) \<and>
   digest example_cache \<noteq> hex_EncodeToString (sha1_Sum example_env (cached example_cache)) \<and>
   length (digest example_cache) = 59 \<and>
   length (hex_EncodeToString (sha1_Sum example_env (cached example_cache))) = 40"
proof -
  have s: "sha1_Sum example_env = SHA1"
    by (simp add: example_env_def)
  have 1: "length (digest example_cache) = 59"
    by (simp add: example_cache_def Sprintf_space_x_length length_SHA1)
  have 2: "length (hex_EncodeToString (sha1_Sum example_env (cached example_cache))) = 40"
    by (simp add: s hex_EncodeToString_length length_SHA1)
  from 1 2 have "digest example_cache \<noteq> hex_EncodeToString (sha1_Sum example_env (cached example_cache))"
    by auto
  with example_content 1 2 show ?thesis
    by simp
qed

end
